theory Spec2Isabelle
  imports Main "HOL-Library.Word"
begin

unbundle bit_operations_syntax

section \<open>The KP2000 SPI controller driver (spi\_driver.c)\<close>

text \<open>
  The driver talks to a memory-mapped controller through \<^verbatim>\<open>readq\<close>/\<^verbatim>\<open>writeq\<close> and
  reads the kernel clock \<^verbatim>\<open>jiffies\<close>. Both are inputs the driver does not control, so
  they are given by an environment: the \<open>k\<close>-th bus read of register \<open>idx\<close> returns
  \<open>readq_val e k idx\<close>, the \<open>k\<close>-th read of the clock returns \<open>jiffies_val e k\<close>. The driver
  is deterministic, so every behaviour of the hardware is one such environment.
  Everything the driver does to the outside is appended to a log of events: the
  bus accesses, the delays, the diagnostic and the finalisation. The log also
  keeps, for the statements below, the clock reads, the reads served from the
  cache and the return of a wait that timed out; nothing the driver does depends
  on the log. The \<^verbatim>\<open>dev_dbg\<close> lines of the validation are left out: they are compiled
  away unless debugging is on and touch neither the device nor the message.
\<close>

type_synonym u8 = "8 word"
type_synonym u16 = "16 word"
type_synonym u32 = "32 word"
type_synonym u64 = "64 word"

subsection \<open>Defines\<close>

abbreviation (input) KP_SPI_REG_CONFIG :: int where "KP_SPI_REG_CONFIG \<equiv> 0"
abbreviation (input) KP_SPI_REG_STATUS :: int where "KP_SPI_REG_STATUS \<equiv> 1"
abbreviation (input) KP_SPI_REG_FFCTRL :: int where "KP_SPI_REG_FFCTRL \<equiv> 2"
abbreviation (input) KP_SPI_REG_TXDATA :: int where "KP_SPI_REG_TXDATA \<equiv> 3"
abbreviation (input) KP_SPI_REG_RXDATA :: int where "KP_SPI_REG_RXDATA \<equiv> 4"

abbreviation (input) KP_SPI_CLK :: u32 where "KP_SPI_CLK \<equiv> 48000000"

abbreviation (input) KP_SPI_REG_CONFIG_TRM_TXRX :: u32 where "KP_SPI_REG_CONFIG_TRM_TXRX \<equiv> 0"
abbreviation (input) KP_SPI_REG_CONFIG_TRM_RX :: u32 where "KP_SPI_REG_CONFIG_TRM_RX \<equiv> 1"
abbreviation (input) KP_SPI_REG_CONFIG_TRM_TX :: u32 where "KP_SPI_REG_CONFIG_TRM_TX \<equiv> 2"

abbreviation (input) KP_SPI_REG_STATUS_RXS :: u64 where "KP_SPI_REG_STATUS_RXS \<equiv> 1"
abbreviation (input) KP_SPI_REG_STATUS_TXS :: u64 where "KP_SPI_REG_STATUS_TXS \<equiv> 2"
abbreviation (input) KP_SPI_REG_STATUS_EOT :: u64 where "KP_SPI_REG_STATUS_EOT \<equiv> 4"

text \<open>The errno values of the kernel (\<^verbatim>\<open>include/uapi/asm-generic/errno*.h\<close>).\<close>

abbreviation (input) EIO :: int where "EIO \<equiv> 5"
abbreviation (input) ENOMEM :: int where "ENOMEM \<equiv> 12"
abbreviation (input) EINVAL :: int where "EINVAL \<equiv> 22"
abbreviation (input) ETIMEDOUT :: int where "ETIMEDOUT \<equiv> 110"

subsection \<open>Environment, log and structures\<close>

datatype event =
    Readq int u64          \<comment> \<open>\<^verbatim>\<open>readq\<close> of register idx returned the value\<close>
  | Writeq int u64         \<comment> \<open>\<^verbatim>\<open>writeq\<close> of the value to register idx\<close>
  | CacheHit u64           \<comment> \<open>a read of Config served from \<^verbatim>\<open>conf_cache\<close>, no bus access\<close>
  | Jiffies u64            \<comment> \<open>a read of \<^verbatim>\<open>jiffies\<close>\<close>
  | WaitTimeout int u64    \<comment> \<open>\<^verbatim>\<open>kp_spi_wait_for_reg_bit\<close> returned \<^verbatim>\<open>-ETIMEDOUT\<close>\<close>
  | DevInfo                \<comment> \<open>\<^verbatim>\<open>dev_info(kpspi->dev, "EOT timed out\n")\<close>\<close>
  | Udelay u16             \<comment> \<open>\<^verbatim>\<open>udelay(transfer->delay_usecs)\<close>\<close>
  | Finalize               \<comment> \<open>\<^verbatim>\<open>spi_finalize_current_message(master)\<close>\<close>

record env =
  readq_val :: "nat \<Rightarrow> int \<Rightarrow> u64"
  jiffies_val :: "nat \<Rightarrow> u64"
  msecs_to_jiffies_1000 :: u64   \<comment> \<open>\<^verbatim>\<open>msecs_to_jiffies(1000)\<close>, fixed by the kernel's HZ\<close>

record hw =
  n_readq :: nat       \<comment> \<open>bus reads done so far\<close>
  n_jiffies :: nat     \<comment> \<open>clock reads done so far\<close>
  log :: "event list"  \<comment> \<open>oldest event first\<close>

text \<open>
  \<^verbatim>\<open>struct kp_spi_controller_state\<close>. The fields \<^verbatim>\<open>base\<close> and \<^verbatim>\<open>phys\<close> name the one
  register window and are left out: a register is addressed by its index.
\<close>

record kp_spi_controller_state =
  cs_chip_select :: u8
  word_len :: u32
  conf_cache :: u64   \<comment> \<open>\<^verbatim>\<open>s64\<close>: read through \<open>sint\<close>\<close>

text \<open>
  The parts of \<^verbatim>\<open>struct spi_device\<close>, \<^verbatim>\<open>struct spi_transfer\<close> and
  \<^verbatim>\<open>struct spi_message\<close> (\<^verbatim>\<open>linux/spi/spi.h\<close>) the driver uses. A buffer pointer is
  \<open>None\<close> when \<^verbatim>\<open>NULL\<close>, otherwise the memory it points to, by offset.
\<close>

record spi_device =
  chip_select :: u8
  dev_bits_per_word :: u8
  controller_state :: "kp_spi_controller_state option"

record spi_transfer =
  tx_buf :: "(nat \<Rightarrow> u8) option"
  rx_buf :: "(nat \<Rightarrow> u8) option"
  len :: u32
  speed_hz :: u32
  bits_per_word :: u8
  delay_usecs :: u16

record spi_message =
  transfers :: "spi_transfer list"
  actual_length :: u32
  status :: int

subsection \<open>\<^verbatim>\<open>union kp_spi_config\<close>\<close>

text \<open>
  The packed bit-field over \<^verbatim>\<open>u32 reg\<close>, least significant bit first:
  pha 0, pol 1, epol 2, dpe 3, wl 4..8, (3 unused), trm 12..13, cs 14..17,
  wcnt 18..24, ffen 25, spi\_en 26, (5 unused). Assigning to a field keeps the
  low bits of the value that fit the field.
\<close>

definition set_field :: "nat \<Rightarrow> nat \<Rightarrow> u32 \<Rightarrow> u32 \<Rightarrow> u32" where
  "set_field off w v reg =
     (reg AND NOT (push_bit off (mask w))) OR push_bit off (v AND mask w)"

definition get_field :: "nat \<Rightarrow> nat \<Rightarrow> u32 \<Rightarrow> u32" where
  "get_field off w reg = drop_bit off reg AND mask w"

definition set_wl :: "u32 \<Rightarrow> u32 \<Rightarrow> u32" where "set_wl = set_field 4 5"
definition set_trm :: "u32 \<Rightarrow> u32 \<Rightarrow> u32" where "set_trm = set_field 12 2"
definition set_cs :: "u32 \<Rightarrow> u32 \<Rightarrow> u32" where "set_cs = set_field 14 4"
definition set_ffen :: "u32 \<Rightarrow> u32 \<Rightarrow> u32" where "set_ffen = set_field 25 1"
definition set_spi_en :: "u32 \<Rightarrow> u32 \<Rightarrow> u32" where "set_spi_en = set_field 26 1"

definition get_dpe :: "u32 \<Rightarrow> u32" where "get_dpe = get_field 3 1"
definition get_wl :: "u32 \<Rightarrow> u32" where "get_wl = get_field 4 5"
definition get_trm :: "u32 \<Rightarrow> u32" where "get_trm = get_field 12 2"
definition get_cs :: "u32 \<Rightarrow> u32" where "get_cs = get_field 14 4"
definition get_ffen :: "u32 \<Rightarrow> u32" where "get_ffen = get_field 25 1"
definition get_spi_en :: "u32 \<Rightarrow> u32" where "get_spi_en = get_field 26 1"

subsection \<open>Register access\<close>

definition kp_spi_read_reg ::
  "env \<Rightarrow> kp_spi_controller_state \<Rightarrow> int \<Rightarrow> hw \<Rightarrow> u64 \<times> hw" where
  "kp_spi_read_reg e cs idx h =
     (if idx = KP_SPI_REG_CONFIG \<and> 0 \<le> sint (conf_cache cs)
      then (conf_cache cs, h\<lparr>log := log h @ [CacheHit (conf_cache cs)]\<rparr>)
      else (readq_val e (n_readq h) idx,
            h\<lparr>n_readq := Suc (n_readq h),
              log := log h @ [Readq idx (readq_val e (n_readq h) idx)]\<rparr>))"

definition kp_spi_write_reg ::
  "kp_spi_controller_state \<Rightarrow> int \<Rightarrow> u64 \<Rightarrow> hw \<Rightarrow> kp_spi_controller_state \<times> hw" where
  "kp_spi_write_reg cs idx val h =
     (if idx = KP_SPI_REG_CONFIG then cs\<lparr>conf_cache := val\<rparr> else cs,
      h\<lparr>log := log h @ [Writeq idx val]\<rparr>)"

subsection \<open>Waiting for a status bit\<close>

text \<open>\<^verbatim>\<open>time_after(a, b)\<close> is \<^verbatim>\<open>((long)((b) - (a)) < 0)\<close>.\<close>

definition time_after :: "u64 \<Rightarrow> u64 \<Rightarrow> bool" where
  "time_after a b = (sint (b - a) < 0)"

definition read_jiffies :: "env \<Rightarrow> hw \<Rightarrow> u64 \<times> hw" where
  "read_jiffies e h =
     (jiffies_val e (n_jiffies h),
      h\<lparr>n_jiffies := Suc (n_jiffies h), log := log h @ [Jiffies (jiffies_val e (n_jiffies h))]\<rparr>)"

text \<open>
  The \<^verbatim>\<open>while\<close> loop of \<^verbatim>\<open>kp_spi_wait_for_reg_bit\<close>. It has no bound of its own: it
  ends when the bit is read set or when the clock is read past the deadline, so
  it is a partial function, \<open>None\<close> when it never returns.
\<close>

partial_function (option) wait_loop ::
  "env \<Rightarrow> kp_spi_controller_state \<Rightarrow> int \<Rightarrow> u64 \<Rightarrow> u64 \<Rightarrow> hw \<Rightarrow> (int \<times> hw) option" where
  "wait_loop e cs idx bt timeout h =
     (let p = kp_spi_read_reg e cs idx h in
      if fst p AND bt \<noteq> 0 then Some (0, snd p)
      else
        let j = read_jiffies e (snd p) in
        if time_after (fst j) timeout then
          (let q = kp_spi_read_reg e cs idx (snd j) in
           if fst q AND bt = 0
           then Some (- ETIMEDOUT, (snd q)\<lparr>log := log (snd q) @ [WaitTimeout idx bt]\<rparr>)
           else Some (0, snd q))
        else wait_loop e cs idx bt timeout (snd j))"

definition kp_spi_wait_for_reg_bit ::
  "env \<Rightarrow> kp_spi_controller_state \<Rightarrow> int \<Rightarrow> u64 \<Rightarrow> hw \<Rightarrow> (int \<times> hw) option" where
  "kp_spi_wait_for_reg_bit e cs idx bt h =
     (let j = read_jiffies e h in
      wait_loop e cs idx bt (fst j + msecs_to_jiffies_1000 e) (snd j))"

subsection \<open>The byte transfer primitive\<close>

text \<open>
  \<^verbatim>\<open>char val = *tx++\<close> passed as the \<^verbatim>\<open>u64 val\<close> of \<^verbatim>\<open>kp_spi_write_reg\<close>: \<^verbatim>\<open>char\<close> is
  signed on x86-64, the only platform of this PCIe card's driver, so the byte is
  sign-extended.
\<close>

definition char_to_u64 :: "u8 \<Rightarrow> u64" where
  "char_to_u64 val = scast val"

text \<open>
  The two \<^verbatim>\<open>for (i = 0 ; i < c ; i++)\<close> loops. \<open>i\<close> stays below \<open>c < 2 ^ 32\<close>, so the
  unsigned comparison of the \<^verbatim>\<open>int i\<close> with the \<^verbatim>\<open>unsigned c\<close> is the comparison of
  naturals. The first component of the result is \<open>False\<close> after \<^verbatim>\<open>goto out\<close>.
\<close>

function kp_spi_tx_loop ::
  "env \<Rightarrow> kp_spi_controller_state \<Rightarrow> (nat \<Rightarrow> u8) \<Rightarrow> nat \<Rightarrow> nat \<Rightarrow> u32 \<Rightarrow> hw
     \<Rightarrow> (bool \<times> u32 \<times> kp_spi_controller_state \<times> hw) option" where
  "kp_spi_tx_loop e cs tx c i processed h =
     (if i < c then
        (case kp_spi_wait_for_reg_bit e cs KP_SPI_REG_STATUS KP_SPI_REG_STATUS_TXS h of
           None \<Rightarrow> None
         | Some (r, h1) \<Rightarrow>
             if r < 0 then Some (False, processed, cs, h1)
             else
               kp_spi_tx_loop e
                 (fst (kp_spi_write_reg cs KP_SPI_REG_TXDATA (char_to_u64 (tx i)) h1))
                 tx c (Suc i) (processed + 1)
                 (snd (kp_spi_write_reg cs KP_SPI_REG_TXDATA (char_to_u64 (tx i)) h1)))
      else Some (True, processed, cs, h))"
  by pat_completeness auto
termination
  by (relation "measure (\<lambda>(e, cs, tx, c, i, processed, h). c - i)") auto

function kp_spi_rx_loop ::
  "env \<Rightarrow> kp_spi_controller_state \<Rightarrow> (nat \<Rightarrow> u8) \<Rightarrow> nat \<Rightarrow> nat \<Rightarrow> u32 \<Rightarrow> hw
     \<Rightarrow> (bool \<times> u32 \<times> (nat \<Rightarrow> u8) \<times> kp_spi_controller_state \<times> hw) option" where
  "kp_spi_rx_loop e cs rx c i processed h =
     (if i < c then
        (let w = kp_spi_write_reg cs KP_SPI_REG_TXDATA 0 h in
         case kp_spi_wait_for_reg_bit e (fst w) KP_SPI_REG_STATUS KP_SPI_REG_STATUS_RXS (snd w) of
           None \<Rightarrow> None
         | Some (r, h1) \<Rightarrow>
             if r < 0 then Some (False, processed, rx, fst w, h1)
             else
               kp_spi_rx_loop e (fst w)
                 (rx(i := ucast (fst (kp_spi_read_reg e (fst w) KP_SPI_REG_RXDATA h1))))
                 c (Suc i) (processed + 1)
                 (snd (kp_spi_read_reg e (fst w) KP_SPI_REG_RXDATA h1)))
      else Some (True, processed, rx, cs, h))"
  by pat_completeness auto
termination
  by (relation "measure (\<lambda>(e, cs, rx, c, i, processed, h). c - i)") auto

text \<open>
  \<^verbatim>\<open>kp_spi_txrx_pio\<close> returns \<^verbatim>\<open>processed\<close>; the model returns with it the transfer
  (whose receive buffer the loop has filled), the controller state and the
  hardware state it leaves.
\<close>

definition kp_spi_txrx_pio ::
  "env \<Rightarrow> kp_spi_controller_state \<Rightarrow> spi_transfer \<Rightarrow> hw
     \<Rightarrow> (u32 \<times> spi_transfer \<times> kp_spi_controller_state \<times> hw) option" where
  "kp_spi_txrx_pio e cs transfer h =
     (case
        (case tx_buf transfer of
           Some tx \<Rightarrow>
             (case kp_spi_tx_loop e cs tx (unat (len transfer)) 0 0 h of
                None \<Rightarrow> None
              | Some (fin, processed, cs1, h1) \<Rightarrow> Some (fin, processed, transfer, cs1, h1))
         | None \<Rightarrow>
             (case rx_buf transfer of
                Some rx \<Rightarrow>
                  (case kp_spi_rx_loop e cs rx (unat (len transfer)) 0 0 h of
                     None \<Rightarrow> None
                   | Some (fin, processed, rx1, cs1, h1) \<Rightarrow>
                       Some (fin, processed, transfer\<lparr>rx_buf := Some rx1\<rparr>, cs1, h1))
              | None \<Rightarrow> Some (True, 0, transfer, cs, h)))
      of
        None \<Rightarrow> None
      | Some (fin, processed, transfer1, cs1, h1) \<Rightarrow>
          if fin then
            (case kp_spi_wait_for_reg_bit e cs1 KP_SPI_REG_STATUS KP_SPI_REG_STATUS_EOT h1 of
               None \<Rightarrow> None
             | Some (r, h2) \<Rightarrow> Some (processed, transfer1, cs1, h2))
          else Some (processed, transfer1, cs1, h1))"

subsection \<open>Setup\<close>

text \<open>
  \<^verbatim>\<open>union kp_spi_config sc\<close> is a local that \<^verbatim>\<open>kp_spi_setup\<close> does not initialise:
  the bits it does not assign are whatever the stack held, the parameter \<open>sc0\<close>.
  \<open>alloc_ok\<close> says whether \<^verbatim>\<open>kzalloc\<close> succeeds. \<open>kp_spi_setup_state\<close> is the block
  under \<^verbatim>\<open>/* setup controller state */\<close>, the rest the block under
  \<^verbatim>\<open>/* set config register */\<close>.
\<close>

definition kp_spi_setup_state :: "bool \<Rightarrow> spi_device \<Rightarrow> kp_spi_controller_state option" where
  "kp_spi_setup_state alloc_ok spidev =
     (case controller_state spidev of
        None \<Rightarrow>
          if alloc_ok
          then Some \<lparr>cs_chip_select = chip_select spidev,
                     word_len = ucast (dev_bits_per_word spidev),
                     conf_cache = - 1\<rparr>
          else None
      | Some cs \<Rightarrow> Some cs)"

definition kp_spi_setup :: "bool \<Rightarrow> u32 \<Rightarrow> spi_device \<Rightarrow> hw \<Rightarrow> int \<times> spi_device \<times> hw" where
  "kp_spi_setup alloc_ok sc0 spidev h =
     (case kp_spi_setup_state alloc_ok spidev of
        None \<Rightarrow> (- ENOMEM, spidev, h)
      | Some cs \<Rightarrow>
          (let sc = set_ffen 0 (set_trm 0 (set_spi_en 0
                      (set_cs (ucast (chip_select spidev))
                        (set_wl (ucast (dev_bits_per_word spidev) - 1) sc0))));
               w = kp_spi_write_reg cs KP_SPI_REG_CONFIG (ucast sc) h
           in (0, spidev\<lparr>controller_state := Some (fst w)\<rparr>, snd w)))"

subsection \<open>The message sequencer\<close>

text \<open>The first \<^verbatim>\<open>list_for_each_entry\<close>: \<open>True\<close> when no transfer is rejected.\<close>

fun kp_spi_validate :: "spi_transfer list \<Rightarrow> bool" where
  "kp_spi_validate [] = True"
| "kp_spi_validate (transfer # ts) =
     (if KP_SPI_CLK < speed_hz transfer
         \<or> (len transfer \<noteq> 0 \<and> \<not> (rx_buf transfer \<noteq> None \<or> tx_buf transfer \<noteq> None))
      then False
      else if speed_hz transfer \<noteq> 0 \<and> speed_hz transfer < drop_bit 15 KP_SPI_CLK
      then False
      else kp_spi_validate ts)"

text \<open>Lines 345 to 366: the Config value written before a transfer of non-zero length.\<close>

definition kp_spi_transfer_config :: "spi_device \<Rightarrow> spi_transfer \<Rightarrow> u32 \<Rightarrow> u32 \<times> u32" where
  "kp_spi_transfer_config spidev transfer reg =
     (let sc1 = (if tx_buf transfer \<noteq> None then set_trm KP_SPI_REG_CONFIG_TRM_TX reg
                 else if rx_buf transfer \<noteq> None then set_trm KP_SPI_REG_CONFIG_TRM_RX reg
                 else reg);
          wlen = (if bits_per_word transfer \<noteq> 0 then ucast (bits_per_word transfer)
                  else ucast (dev_bits_per_word spidev))
      in (wlen, set_cs (ucast (chip_select spidev)) (set_wl (wlen - 1) sc1)))"

text \<open>
  The body of \<^verbatim>\<open>if (transfer->len)\<close> in the second loop: set up Config, run the
  primitive, add its count. The first component is the local \<^verbatim>\<open>status\<close>, non-zero
  when the loop is left by \<^verbatim>\<open>break\<close>.
\<close>

definition kp_spi_one_transfer ::
  "env \<Rightarrow> spi_device \<Rightarrow> kp_spi_controller_state \<Rightarrow> spi_transfer \<Rightarrow> u32 \<Rightarrow> hw
     \<Rightarrow> (int \<times> spi_transfer \<times> u32 \<times> kp_spi_controller_state \<times> hw) option" where
  "kp_spi_one_transfer e spidev cs transfer al h =
     (if len transfer \<noteq> 0 then
        (let r = kp_spi_read_reg e cs KP_SPI_REG_CONFIG h;
             c = kp_spi_transfer_config spidev transfer (ucast (fst r));
             w = kp_spi_write_reg (cs\<lparr>word_len := fst c\<rparr>) KP_SPI_REG_CONFIG
                   (ucast (snd c)) (snd r)
         in case kp_spi_txrx_pio e (fst w) transfer (snd w) of
              None \<Rightarrow> None
            | Some (count, transfer1, cs1, h1) \<Rightarrow>
                Some (if count \<noteq> len transfer then - EIO else 0,
                      transfer1, al + count, cs1, h1))
      else Some (0, transfer, al, cs, h))"

text \<open>
  The second \<^verbatim>\<open>list_for_each_entry\<close>. The result is the local \<^verbatim>\<open>status\<close>, the
  transfers as the loop leaves them, \<^verbatim>\<open>m->actual_length\<close>, the controller state and
  the hardware state.
\<close>

fun kp_spi_do_transfers ::
  "env \<Rightarrow> spi_device \<Rightarrow> kp_spi_controller_state \<Rightarrow> spi_transfer list \<Rightarrow> u32 \<Rightarrow> hw
     \<Rightarrow> (int \<times> spi_transfer list \<times> u32 \<times> kp_spi_controller_state \<times> hw) option" where
  "kp_spi_do_transfers e spidev cs [] al h = Some (0, [], al, cs, h)"
| "kp_spi_do_transfers e spidev cs (transfer # ts) al h =
     (if tx_buf transfer = None \<and> rx_buf transfer = None \<and> len transfer \<noteq> 0
      then Some (- EINVAL, transfer # ts, al, cs, h)
      else
        (case kp_spi_one_transfer e spidev cs transfer al h of
           None \<Rightarrow> None
         | Some (st, transfer1, al1, cs1, h1) \<Rightarrow>
             if st \<noteq> 0 then Some (st, transfer1 # ts, al1, cs1, h1)
             else
               (case kp_spi_do_transfers e spidev cs1 ts al1
                       (if delay_usecs transfer \<noteq> 0
                        then h1\<lparr>log := log h1 @ [Udelay (delay_usecs transfer)]\<rparr> else h1) of
                  None \<Rightarrow> None
                | Some (st2, ts1, al2, cs2, h2) \<Rightarrow> Some (st2, transfer1 # ts1, al2, cs2, h2))))"

text \<open>
  What \<^verbatim>\<open>kp_spi_transfer_one_message\<close> gives back: its \<^verbatim>\<open>int\<close>, or the kernel fault of
  dereferencing a \<^verbatim>\<open>NULL\<close> \<^verbatim>\<open>spidev->controller_state\<close>.
\<close>

datatype retval = Returns int | NullDeref

definition kp_spi_transfer_one_message ::
  "env \<Rightarrow> spi_device \<Rightarrow> spi_message \<Rightarrow> hw
     \<Rightarrow> (retval \<times> spi_message \<times> spi_device \<times> hw) option" where
  "kp_spi_transfer_one_message e spidev m h =
     (let m0 = m\<lparr>actual_length := 0, status := 0\<rparr> in
      if transfers m0 = [] then Some (Returns (- EINVAL), m0, spidev, h)
      else if \<not> kp_spi_validate (transfers m0) then Some (Returns (- EINVAL), m0, spidev, h)
      else
        (case controller_state spidev of
           None \<Rightarrow> Some (NullDeref, m0, spidev, h)
         | Some cs \<Rightarrow>
             (let r = kp_spi_read_reg e cs KP_SPI_REG_CONFIG h;
                  w = kp_spi_write_reg cs KP_SPI_REG_CONFIG
                        (ucast (set_spi_en 1 (ucast (fst r)))) (snd r)
              in case kp_spi_wait_for_reg_bit e (fst w) KP_SPI_REG_STATUS KP_SPI_REG_STATUS_EOT
                        (snd w) of
                   None \<Rightarrow> None
                 | Some (t, h1) \<Rightarrow>
                     if t < 0
                     then Some (Returns 0, m0, spidev\<lparr>controller_state := Some (fst w)\<rparr>,
                                h1\<lparr>log := log h1 @ [DevInfo, Finalize]\<rparr>)
                     else
                       (case kp_spi_do_transfers e spidev (fst w) (transfers m0) 0 h1 of
                          None \<Rightarrow> None
                        | Some (st, ts1, al, cs1, h2) \<Rightarrow>
                            (let r1 = kp_spi_read_reg e cs1 KP_SPI_REG_CONFIG h2;
                                 w1 = kp_spi_write_reg cs1 KP_SPI_REG_CONFIG
                                        (ucast (set_spi_en 0 (ucast (fst r1)))) (snd r1)
                             in Some (Returns 0, m0\<lparr>transfers := ts1, actual_length := al\<rparr>,
                                      spidev\<lparr>controller_state := Some (fst w1)\<rparr>,
                                      (snd w1)\<lparr>log := log (snd w1) @ [Finalize]\<rparr>))))))"

section \<open>Vocabulary of the properties\<close>

text \<open>
  The clock goes on: after every reading there is a later one that lies more
  than \<^verbatim>\<open>msecs_to_jiffies(1000)\<close> after it. Without it a wait for a bit that never
  comes does not return.
\<close>

definition clock_progress :: "env \<Rightarrow> bool" where
  "clock_progress e =
     (\<forall>k. \<exists>j>k. time_after (jiffies_val e j) (jiffies_val e k + msecs_to_jiffies_1000 e))"

text \<open>
  A read of register \<open>idx\<close> is served from the cache when the register is Config
  and the cache is populated, and is the next bus read otherwise. \<open>poll_val\<close> is
  the value such a read returns when \<open>k\<close> bus reads went before it, \<open>poll_ev\<close> the
  event it logs, \<open>bus_reads\<close> the number of bus reads that \<open>n\<close> such reads make.
\<close>

definition cached :: "kp_spi_controller_state \<Rightarrow> int \<Rightarrow> bool" where
  "cached cs idx = (idx = KP_SPI_REG_CONFIG \<and> 0 \<le> sint (conf_cache cs))"

definition poll_val :: "env \<Rightarrow> kp_spi_controller_state \<Rightarrow> int \<Rightarrow> nat \<Rightarrow> u64" where
  "poll_val e cs idx k = (if cached cs idx then conf_cache cs else readq_val e k idx)"

definition poll_ev :: "env \<Rightarrow> kp_spi_controller_state \<Rightarrow> int \<Rightarrow> nat \<Rightarrow> event" where
  "poll_ev e cs idx k =
     (if cached cs idx then CacheHit (conf_cache cs) else Readq idx (readq_val e k idx))"

definition bus_reads :: "kp_spi_controller_state \<Rightarrow> int \<Rightarrow> nat \<Rightarrow> nat" where
  "bus_reads cs idx n = (if cached cs idx then 0 else n)"

text \<open>
  The rounds of the wait loop, counted from 0 and seen from the state \<open>s\<close> in which
  the loop is entered, the first clock read (which fixes the deadline) being done.
  Round \<open>i\<close> reads the register, the \<open>i\<close>-th such read after \<open>s\<close>, and when the bit
  is clear it reads the clock, the \<open>i\<close>-th reading after \<open>s\<close>. The wait goes on
  after round \<open>i\<close> when that read shows the bit clear and that clock reading is not
  after the deadline. \<open>wait_rounds\<close> is what \<open>n\<close> rounds that go on leave in the
  log, \<open>next_round\<close> the state after one of them.
\<close>

definition wait_goes_on ::
  "env \<Rightarrow> kp_spi_controller_state \<Rightarrow> int \<Rightarrow> u64 \<Rightarrow> u64 \<Rightarrow> hw \<Rightarrow> nat \<Rightarrow> bool" where
  "wait_goes_on e cs idx bt deadline s i =
     (poll_val e cs idx (n_readq s + i) AND bt = 0
      \<and> \<not> time_after (jiffies_val e (n_jiffies s + i)) deadline)"

definition wait_rounds :: "env \<Rightarrow> kp_spi_controller_state \<Rightarrow> int \<Rightarrow> hw \<Rightarrow> nat \<Rightarrow> event list" where
  "wait_rounds e cs idx s n =
     concat (map (\<lambda>i. [poll_ev e cs idx (n_readq s + i), Jiffies (jiffies_val e (n_jiffies s + i))])
               [0..<n])"

definition next_round :: "env \<Rightarrow> kp_spi_controller_state \<Rightarrow> int \<Rightarrow> hw \<Rightarrow> hw" where
  "next_round e cs idx s = snd (read_jiffies e (snd (kp_spi_read_reg e cs idx s)))"

text \<open>
  What the wait returns, and the state it leaves, when round \<open>n\<close> is the first
  after which it does not go on. If the read of round \<open>n\<close> shows the bit, the
  result is 0. Otherwise the clock reading of round \<open>n\<close> is after the deadline;
  the register is read once more, and the result is 0 if that one read shows the
  bit and \<^verbatim>\<open>-ETIMEDOUT\<close> if it does not. The state has the counts of the bus and
  clock reads made, and the log has every read with the value the environment
  (or the cache) gave it.
\<close>

definition wait_outcome ::
  "env \<Rightarrow> kp_spi_controller_state \<Rightarrow> int \<Rightarrow> u64 \<Rightarrow> hw \<Rightarrow> nat \<Rightarrow> int \<times> hw" where
  "wait_outcome e cs idx bt s n =
     (let polled = wait_rounds e cs idx s n @ [poll_ev e cs idx (n_readq s + n)];
          rechecked = polled @ [Jiffies (jiffies_val e (n_jiffies s + n)),
                                poll_ev e cs idx (n_readq s + Suc n)]
      in if poll_val e cs idx (n_readq s + n) AND bt \<noteq> 0
         then (0, s\<lparr>n_readq := n_readq s + bus_reads cs idx (Suc n),
                    n_jiffies := n_jiffies s + n,
                    log := log s @ polled\<rparr>)
         else if poll_val e cs idx (n_readq s + Suc n) AND bt \<noteq> 0
         then (0, s\<lparr>n_readq := n_readq s + bus_reads cs idx (Suc (Suc n)),
                    n_jiffies := n_jiffies s + Suc n,
                    log := log s @ rechecked\<rparr>)
         else (- ETIMEDOUT,
               s\<lparr>n_readq := n_readq s + bus_reads cs idx (Suc (Suc n)),
                 n_jiffies := n_jiffies s + Suc n,
                 log := log s @ rechecked @ [WaitTimeout idx bt]\<rparr>))"

text \<open>
  The log without the reads that only poll: clock reads, cache hits and reads of
  registers other than RX-Data. What is left are the writes, the RX-Data reads,
  the timeouts, the delays, the diagnostic and the finalisation.
\<close>

fun polling :: "event \<Rightarrow> bool" where
  "polling (Readq i v) = (i \<noteq> KP_SPI_REG_RXDATA)"
| "polling (CacheHit v) = True"
| "polling (Jiffies j) = True"
| "polling _ = False"

definition sig :: "event list \<Rightarrow> event list" where
  "sig evs = filter (\<lambda>ev. \<not> polling ev) evs"

text \<open>One zero write to TX-Data before each read of RX-Data.\<close>

definition rx_pairs :: "u64 list \<Rightarrow> event list" where
  "rx_pairs vs = concat (map (\<lambda>v. [Writeq KP_SPI_REG_TXDATA 0, Readq KP_SPI_REG_RXDATA v]) vs)"

text \<open>What the byte transfer primitive leaves in the log when it has moved \<open>k\<close> units.\<close>

definition txrx_trace :: "spi_transfer \<Rightarrow> nat \<Rightarrow> event list \<Rightarrow> spi_transfer \<Rightarrow> bool" where
  "txrx_trace t k evs t' =
     (\<exists>eot. (eot = [] \<or> eot = [WaitTimeout KP_SPI_REG_STATUS KP_SPI_REG_STATUS_EOT]) \<and>
        (case tx_buf t of
           Some tx \<Rightarrow>
             t' = t \<and>
             sig evs = map (\<lambda>n. Writeq KP_SPI_REG_TXDATA (char_to_u64 (tx n))) [0..<k]
                       @ (if k = unat (len t) then eot
                          else [WaitTimeout KP_SPI_REG_STATUS KP_SPI_REG_STATUS_TXS])
         | None \<Rightarrow>
             (case rx_buf t of
                Some rx \<Rightarrow>
                  (\<exists>vs. length vs = k \<and>
                     t' = t\<lparr>rx_buf := Some (\<lambda>n. if n < k then ucast (vs ! n) else rx n)\<rparr> \<and>
                     sig evs = rx_pairs vs
                               @ (if k = unat (len t) then eot
                                  else [Writeq KP_SPI_REG_TXDATA 0,
                                        WaitTimeout KP_SPI_REG_STATUS KP_SPI_REG_STATUS_RXS]))
              | None \<Rightarrow> k = 0 \<and> t' = t \<and> sig evs = eot)))"

text \<open>
  A rejected message in the words of the specification: no transfer at all, or a
  transfer that asks for more than 48,000,000 Hz, or for a speed that is not zero
  and below 48,000,000 / 32768 Hz (the quotient of the integers, 1464), or that has
  a length and neither buffer.
\<close>

definition invalid_transfer :: "spi_transfer \<Rightarrow> bool" where
  "invalid_transfer t =
     (48000000 < unat (speed_hz t)
      \<or> (speed_hz t \<noteq> 0 \<and> unat (speed_hz t) < 48000000 div 32768)
      \<or> (len t \<noteq> 0 \<and> tx_buf t = None \<and> rx_buf t = None))"

definition invalid_message :: "spi_message \<Rightarrow> bool" where
  "invalid_message m = (transfers m = [] \<or> (\<exists>t \<in> set (transfers m). invalid_transfer t))"

text \<open>
  Timeouts in the log: any, and those of the per-unit waits of the byte transfer
  primitive (for TX-ready and RX-ready), as opposed to the end-of-transfer waits.
\<close>

fun is_timeout :: "event \<Rightarrow> bool" where
  "is_timeout (WaitTimeout i b) = True"
| "is_timeout _ = False"

fun unit_timeout :: "event \<Rightarrow> bool" where
  "unit_timeout (WaitTimeout i b) =
     (i = KP_SPI_REG_STATUS \<and> (b = KP_SPI_REG_STATUS_TXS \<or> b = KP_SPI_REG_STATUS_RXS))"
| "unit_timeout _ = False"

text \<open>The units a list of transfers asks for, and whether a transfer has a buffer.\<close>

definition total_len :: "spi_transfer list \<Rightarrow> nat" where
  "total_len ts = sum_list (map (\<lambda>t. unat (len t)) ts)"

definition has_buf :: "spi_transfer \<Rightarrow> bool" where
  "has_buf t = (tx_buf t \<noteq> None \<or> rx_buf t \<noteq> None)"

text \<open>
  The writes and other events a message that passed validation leaves: Config is
  written with SPI-enable set; then either the up-front wait times out, or the
  transfers run and Config is written with SPI-enable cleared, \<open>n\<close> units moved.
\<close>

definition message_events :: "spi_message \<Rightarrow> spi_message \<Rightarrow> event list \<Rightarrow> bool" where
  "message_events m m' evs =
     (\<exists>v1. get_spi_en v1 = 1 \<and>
        (sig evs = [Writeq KP_SPI_REG_CONFIG (ucast v1),
                    WaitTimeout KP_SPI_REG_STATUS KP_SPI_REG_STATUS_EOT, DevInfo, Finalize]
           \<and> m' = m\<lparr>actual_length := 0, status := 0\<rparr>
         \<or> (\<exists>body v2 n.
               sig evs = Writeq KP_SPI_REG_CONFIG (ucast v1) # body
                           @ [Writeq KP_SPI_REG_CONFIG (ucast v2), Finalize]
               \<and> get_spi_en v2 = 0 \<and> actual_length m' = of_nat n
               \<and> (if list_ex unit_timeout body
                   then n < total_len (transfers m)
                        \<and> (\<exists>pre w. body = pre @ [w] \<and> unit_timeout w
                              \<and> \<not> list_ex unit_timeout pre)
                   else n = total_len (transfers m)))))"

text \<open>The log and the \<^verbatim>\<open>actual_length\<close> of a run of the sequencer.\<close>

definition result_log :: "(retval \<times> spi_message \<times> spi_device \<times> hw) option \<Rightarrow> event list" where
  "result_log r = (case r of None \<Rightarrow> [] | Some (_, _, _, h) \<Rightarrow> log h)"

definition result_length :: "(retval \<times> spi_message \<times> spi_device \<times> hw) option \<Rightarrow> u32 option" where
  "result_length r = (case r of None \<Rightarrow> None | Some (_, m, _, _) \<Rightarrow> Some (actual_length m))"

text \<open>
  The units the primitive has moved, counted in the log: for a send the writes to
  TX-Data, for a receive the reads of RX-Data.
\<close>

fun tx_write :: "event \<Rightarrow> bool" where
  "tx_write (Writeq i v) = (i = KP_SPI_REG_TXDATA)"
| "tx_write _ = False"

fun rx_read :: "event \<Rightarrow> bool" where
  "rx_read (Readq i v) = (i = KP_SPI_REG_RXDATA)"
| "rx_read _ = False"

definition units_moved :: "spi_transfer \<Rightarrow> event list \<Rightarrow> nat" where
  "units_moved t evs =
     (if tx_buf t \<noteq> None then length (filter tx_write evs) else length (filter rx_read evs))"

text \<open>
  The byte transfer primitive in the words of the specification (section 4.3),
  unit by unit, a unit being a byte: for send, for each unit, wait for TX-ready,
  then write the unit to TX-Data; for receive, for each unit, write a zero to
  TX-Data, wait for RX-ready, then read one unit from RX-Data. Either stops at the
  first wait that fails. They give the return values of the per-unit waits they
  made, in the order made, the units received, and the state they leave.
\<close>

fun send_units ::
  "env \<Rightarrow> kp_spi_controller_state \<Rightarrow> u8 list \<Rightarrow> hw \<Rightarrow> (int list \<times> hw) option" where
  "send_units e cs [] h = Some ([], h)"
| "send_units e cs (u # us) h =
     (case kp_spi_wait_for_reg_bit e cs KP_SPI_REG_STATUS KP_SPI_REG_STATUS_TXS h of
        None \<Rightarrow> None
      | Some (r, h1) \<Rightarrow>
          if r \<noteq> 0 then Some ([r], h1)
          else
            (case send_units e cs us
                    (h1\<lparr>log := log h1 @ [Writeq KP_SPI_REG_TXDATA (char_to_u64 u)]\<rparr>) of
               None \<Rightarrow> None
             | Some (rs, h2) \<Rightarrow> Some (r # rs, h2)))"

fun recv_units ::
  "env \<Rightarrow> kp_spi_controller_state \<Rightarrow> nat \<Rightarrow> hw \<Rightarrow> (int list \<times> u8 list \<times> hw) option" where
  "recv_units e cs 0 h = Some ([], [], h)"
| "recv_units e cs (Suc n) h =
     (case kp_spi_wait_for_reg_bit e cs KP_SPI_REG_STATUS KP_SPI_REG_STATUS_RXS
             (h\<lparr>log := log h @ [Writeq KP_SPI_REG_TXDATA 0]\<rparr>) of
        None \<Rightarrow> None
      | Some (r, h1) \<Rightarrow>
          if r \<noteq> 0 then Some ([r], [], h1)
          else
            (let v = readq_val e (n_readq h1) KP_SPI_REG_RXDATA in
             case recv_units e cs n
                    (h1\<lparr>n_readq := Suc (n_readq h1),
                        log := log h1 @ [Readq KP_SPI_REG_RXDATA v]\<rparr>) of
               None \<Rightarrow> None
             | Some (rs, us, h2) \<Rightarrow> Some (r # rs, ucast v # us, h2)))"

text \<open>
  The per-unit part of a call of the primitive on a transfer: the send of the
  first \<^verbatim>\<open>len\<close> bytes of the send buffer if there is one, otherwise the receive of
  \<^verbatim>\<open>len\<close> units if there is a receive buffer, otherwise nothing. \<open>units_stored\<close> is
  the transfer with the units received put at the start of its receive buffer.
\<close>

definition pio_units ::
  "env \<Rightarrow> kp_spi_controller_state \<Rightarrow> spi_transfer \<Rightarrow> hw
     \<Rightarrow> (int list \<times> u8 list \<times> hw) option" where
  "pio_units e cs t h =
     (case tx_buf t of
        Some tx \<Rightarrow>
          (case send_units e cs (map tx [0..<unat (len t)]) h of
             None \<Rightarrow> None
           | Some (rs, h1) \<Rightarrow> Some (rs, [], h1))
      | None \<Rightarrow>
          (case rx_buf t of
             Some rx \<Rightarrow> recv_units e cs (unat (len t)) h
           | None \<Rightarrow> Some ([], [], h)))"

definition units_stored :: "spi_transfer \<Rightarrow> u8 list \<Rightarrow> spi_transfer" where
  "units_stored t us =
     (case rx_buf t of
        Some rx \<Rightarrow>
          if tx_buf t = None
          then t\<lparr>rx_buf := Some (\<lambda>n. if n < length us then us ! n else rx n)\<rparr>
          else t
      | None \<Rightarrow> t)"

text \<open>
  The session states of a device: what a \<^verbatim>\<open>kp_spi_setup\<close> that succeeds attaches to
  the device, and what a call of the sequencer on a device that holds a session
  state leaves attached to it. The driver makes and changes session state nowhere
  else, and reads no register before setup has run.
\<close>

inductive session_state :: "kp_spi_controller_state \<Rightarrow> bool" where
  after_setup:
    "kp_spi_setup alloc_ok sc0 spidev h = (0, spidev', h') \<Longrightarrow>
     controller_state spidev' = Some cs \<Longrightarrow> session_state cs"
| after_message:
    "session_state cs \<Longrightarrow> controller_state spidev = Some cs \<Longrightarrow>
     kp_spi_transfer_one_message e spidev m h = Some (r, m', spidev', h') \<Longrightarrow>
     controller_state spidev' = Some cs' \<Longrightarrow> session_state cs'"

subsection \<open>Concrete inputs\<close>

definition hw0 :: hw where
  "hw0 = \<lparr>n_readq = 0, n_jiffies = 0, log = []\<rparr>"

text \<open>
  Environments. In each but \<open>env_slow\<close> the clock advances by 2000 ticks from one
  reading to the next, past any deadline of 1000 ticks. \<open>env_boundary\<close>: the first
  bus read gives 0, every later one 4 (end-of-transfer). \<open>env_count\<close>: the \<open>k\<close>-th
  bus read gives \<open>k\<close>. \<open>env_slow\<close>: the clock advances by 400 ticks, the first two
  bus reads give 0, every later one 4.
\<close>

definition env_boundary :: env where
  "env_boundary =
     \<lparr>readq_val = (\<lambda>k idx. if k = 0 then 0 else 4),
      jiffies_val = (\<lambda>k. of_nat k * 2000),
      msecs_to_jiffies_1000 = 1000\<rparr>"

definition env_count :: env where
  "env_count =
     \<lparr>readq_val = (\<lambda>k idx. of_nat k),
      jiffies_val = (\<lambda>k. of_nat k * 2000),
      msecs_to_jiffies_1000 = 1000\<rparr>"

definition env_slow :: env where
  "env_slow =
     \<lparr>readq_val = (\<lambda>k idx. if k < 2 then 0 else 4),
      jiffies_val = (\<lambda>k. of_nat k * 400),
      msecs_to_jiffies_1000 = 1000\<rparr>"

text \<open>
  \<open>env_ready\<close>: every status bit is set at every read, the \<open>k\<close>-th bus read gives
  \<open>0xA9 + k\<close> when it reads RX-Data. \<open>env_stall\<close>: TX-ready and end-of-transfer are set
  for the first three bus reads, then only end-of-transfer. \<open>env_stuck\<close>: no status
  bit is ever set.
\<close>

definition env_ready :: env where
  "env_ready =
     \<lparr>readq_val = (\<lambda>k idx. if idx = KP_SPI_REG_RXDATA then 0xA9 + of_nat k else 7),
      jiffies_val = (\<lambda>k. of_nat k * 2000),
      msecs_to_jiffies_1000 = 1000\<rparr>"

definition env_stall :: env where
  "env_stall =
     \<lparr>readq_val = (\<lambda>k idx. if k < 3 then 6 else 4),
      jiffies_val = (\<lambda>k. of_nat k * 2000),
      msecs_to_jiffies_1000 = 1000\<rparr>"

definition env_stuck :: env where
  "env_stuck =
     \<lparr>readq_val = (\<lambda>k idx. 0),
      jiffies_val = (\<lambda>k. of_nat k * 2000),
      msecs_to_jiffies_1000 = 1000\<rparr>"

text \<open>
  \<open>env_no_eot\<close>: TX-ready and RX-ready are always set, end-of-transfer never.
  \<open>env_rx3\<close>: every status bit is always set, the reads of RX-Data give
  \<open>0xAA\<close>, \<open>0xBB\<close>, \<open>0xCC\<close>.
\<close>

definition env_no_eot :: env where
  "env_no_eot =
     \<lparr>readq_val = (\<lambda>k idx. 3),
      jiffies_val = (\<lambda>k. of_nat k * 2000),
      msecs_to_jiffies_1000 = 1000\<rparr>"

definition env_rx3 :: env where
  "env_rx3 =
     \<lparr>readq_val = (\<lambda>k idx. if idx = KP_SPI_REG_RXDATA
                             then (if k = 1 then 0xAA else if k = 3 then 0xBB else 0xCC)
                             else 7),
      jiffies_val = (\<lambda>k. of_nat k * 2000),
      msecs_to_jiffies_1000 = 1000\<rparr>"

text \<open>
  Controller states: \<open>cs0\<close> with a Config value cached, \<open>cs_wide\<close> with a word
  length of 16 bits configured, \<open>cs_unset\<close> as allocated, the cache at its sentinel.
  Devices: \<open>dev_new\<close> before its first setup, \<open>dev0\<close> after.
\<close>

definition cs0 :: kp_spi_controller_state where
  "cs0 = \<lparr>cs_chip_select = 1, word_len = 8, conf_cache = 0x4070\<rparr>"

definition cs_wide :: kp_spi_controller_state where
  "cs_wide = \<lparr>cs_chip_select = 1, word_len = 16, conf_cache = 0x40050F0\<rparr>"

definition cs_unset :: kp_spi_controller_state where
  "cs_unset = \<lparr>cs_chip_select = 1, word_len = 8, conf_cache = - 1\<rparr>"

definition dev_new :: spi_device where
  "dev_new = \<lparr>chip_select = 1, dev_bits_per_word = 8, controller_state = None\<rparr>"

definition dev0 :: spi_device where
  "dev0 = \<lparr>chip_select = 1, dev_bits_per_word = 8, controller_state = Some cs0\<rparr>"

text \<open>Transfers and messages.\<close>

definition xfer_fast :: spi_transfer where
  "xfer_fast = \<lparr>tx_buf = Some (\<lambda>n. 0), rx_buf = None, len = 4, speed_hz = 50000000,
                 bits_per_word = 0, delay_usecs = 0\<rparr>"

definition xfer_tx4 :: spi_transfer where
  "xfer_tx4 = \<lparr>tx_buf = Some (\<lambda>n. of_nat n + 1), rx_buf = None, len = 4, speed_hz = 1000000,
                 bits_per_word = 0, delay_usecs = 0\<rparr>"

definition xfer_both :: spi_transfer where
  "xfer_both = \<lparr>tx_buf = Some (\<lambda>n. of_nat n + 1), rx_buf = Some (\<lambda>n. 0x55), len = 2,
                 speed_hz = 0, bits_per_word = 0, delay_usecs = 0\<rparr>"

definition msg_fast :: spi_message where
  "msg_fast = \<lparr>transfers = [xfer_tx4, xfer_fast], actual_length = 7, status = 1\<rparr>"

definition xfer_rx3 :: spi_transfer where
  "xfer_rx3 = \<lparr>tx_buf = None, rx_buf = Some (\<lambda>n. 0), len = 3, speed_hz = 0,
                 bits_per_word = 16, delay_usecs = 5\<rparr>"

definition msg_ok :: spi_message where
  "msg_ok = \<lparr>transfers = [xfer_tx4, xfer_rx3], actual_length = 0, status = 0\<rparr>"

section \<open>Register access and waiting\<close>

declare kp_spi_tx_loop.simps [simp del] kp_spi_rx_loop.simps [simp del]

lemma n_jiffies_read_reg [simp]: "n_jiffies (snd (kp_spi_read_reg e cs idx h)) = n_jiffies h"
  by (simp add: kp_spi_read_reg_def)

lemma wait_loop_total:
  assumes "n_jiffies h \<le> j" "time_after (jiffies_val e j) timeout"
  shows "\<exists>r. wait_loop e cs idx bt timeout h = Some r"
  using assms
proof (induction "j - n_jiffies h" arbitrary: h)
  case 0
  then have "n_jiffies h = j" by simp
  with 0 show ?case
    by (subst wait_loop.simps) (simp add: Let_def read_jiffies_def)
next
  case (Suc d)
  let ?p = "kp_spi_read_reg e cs idx h"
  let ?j = "read_jiffies e (snd ?p)"
  have "\<exists>r. wait_loop e cs idx bt timeout (snd ?j) = Some r"
    using Suc by (intro Suc.hyps(1)) (auto simp: read_jiffies_def)
  then show ?case
    by (subst wait_loop.simps) (auto simp: Let_def)
qed

lemma kp_spi_wait_for_reg_bit_total:
  assumes "clock_progress e"
  shows "\<exists>r h'. kp_spi_wait_for_reg_bit e cs idx bt h = Some (r, h')"
proof -
  from assms obtain j where j: "j > n_jiffies h"
    "time_after (jiffies_val e j) (jiffies_val e (n_jiffies h) + msecs_to_jiffies_1000 e)"
    unfolding clock_progress_def by blast
  have "\<exists>r. wait_loop e cs idx bt (fst (read_jiffies e h) + msecs_to_jiffies_1000 e) (snd (read_jiffies e h)) = Some r"
    using j by (intro wait_loop_total[where j=j]) (auto simp: read_jiffies_def)
  then show ?thesis by (auto simp: kp_spi_wait_for_reg_bit_def Let_def)
qed

lemma read_jiffies_log:
  "log (snd (read_jiffies e h)) = log h @ [Jiffies (fst (read_jiffies e h))]"
  by (simp add: read_jiffies_def)

lemma read_reg_poll:
  "kp_spi_read_reg e cs idx s
     = (poll_val e cs idx (n_readq s),
        s\<lparr>n_readq := n_readq s + bus_reads cs idx 1,
          log := log s @ [poll_ev e cs idx (n_readq s)]\<rparr>)"
  by (simp add: kp_spi_read_reg_def poll_val_def poll_ev_def bus_reads_def cached_def)

lemmas poll_defs = poll_val_def poll_ev_def bus_reads_def

lemma next_round_fields:
  "n_readq (next_round e cs idx s) = n_readq s + bus_reads cs idx 1"
  "n_jiffies (next_round e cs idx s) = Suc (n_jiffies s)"
  "log (next_round e cs idx s)
     = log s @ [poll_ev e cs idx (n_readq s), Jiffies (jiffies_val e (n_jiffies s))]"
  by (simp_all add: next_round_def read_reg_poll read_jiffies_def)

lemma goes_on_shift:
  "wait_goes_on e cs idx bt d (next_round e cs idx s) i = wait_goes_on e cs idx bt d s (Suc i)"
  by (simp add: wait_goes_on_def next_round_fields poll_defs)

lemma rounds_shift:
  "[poll_ev e cs idx (n_readq s), Jiffies (jiffies_val e (n_jiffies s))]
     @ wait_rounds e cs idx (next_round e cs idx s) n = wait_rounds e cs idx s (Suc n)"
  unfolding wait_rounds_def upt_conv_Cons [OF zero_less_Suc] map_Suc_upt [symmetric]
  by (simp add: next_round_fields poll_defs o_def)

lemma outcome_shift:
  "wait_outcome e cs idx bt (next_round e cs idx s) n = wait_outcome e cs idx bt s (Suc n)"
proof -
  have s: "next_round e cs idx s
          = s\<lparr>n_readq := n_readq s + bus_reads cs idx 1, n_jiffies := Suc (n_jiffies s),
               log := log s @ [poll_ev e cs idx (n_readq s), Jiffies (jiffies_val e (n_jiffies s))]\<rparr>"
    by (simp add: next_round_def read_reg_poll read_jiffies_def)
  note r = rounds_shift [of e cs idx s n, symmetric]
  show ?thesis
    unfolding wait_outcome_def Let_def r
    by (simp add: next_round_fields) (simp add: s poll_defs)
qed

lemma list_all_upt: "list_all P [0..<n] = (\<forall>i<n. P i)"
  by (auto simp: list_all_iff)

lemma wait_loop_ends:
  assumes "list_all (wait_goes_on e cs idx bt d s) [0..<n]" "\<not> wait_goes_on e cs idx bt d s n"
  shows "wait_loop e cs idx bt d s = Some (wait_outcome e cs idx bt s n)"
  using assms
proof (induction n arbitrary: s)
  case 0
  then show ?case
    by (subst wait_loop.simps)
       (auto simp: Let_def read_reg_poll read_jiffies_def wait_outcome_def wait_rounds_def
          wait_goes_on_def poll_defs)
next
  case (Suc n)
  from Suc.prems(1) have all: "wait_goes_on e cs idx bt d s i" if "i < Suc n" for i
    using that unfolding list_all_upt by blast
  have g0: "wait_goes_on e cs idx bt d s 0" by (rule all) simp
  have rest: "list_all (wait_goes_on e cs idx bt d (next_round e cs idx s)) [0..<n]"
    unfolding list_all_upt goes_on_shift by (intro allI impI all) simp
  from Suc.prems(2) have "\<not> wait_goes_on e cs idx bt d (next_round e cs idx s) n"
    by (simp add: goes_on_shift)
  from Suc.IH [OF rest this]
  have "wait_loop e cs idx bt d (next_round e cs idx s) = Some (wait_outcome e cs idx bt s (Suc n))"
    by (simp add: outcome_shift)
  moreover from g0 have "wait_loop e cs idx bt d s = wait_loop e cs idx bt d (next_round e cs idx s)"
    by (subst wait_loop.simps)
       (simp add: Let_def wait_goes_on_def next_round_def read_reg_poll read_jiffies_def)
  ultimately show ?case by simp
qed

lemma wait_loop_ended:
  assumes "wait_loop e cs idx bt d s = Some y"
  shows "\<exists>n. list_all (wait_goes_on e cs idx bt d s) [0..<n] \<and> \<not> wait_goes_on e cs idx bt d s n
           \<and> y = wait_outcome e cs idx bt s n"
  using assms
proof (induction rule: wait_loop.raw_induct [rotated 1, consumes 1])
  case (1 wl e cs idx bt d s y)
  show ?case
  proof (cases "wait_goes_on e cs idx bt d s 0")
    case False
    have "list_all (wait_goes_on e cs idx bt d s) [0..<0]" by simp
    from wait_loop_ends [OF this False]
    have "wait_loop e cs idx bt d s = Some (wait_outcome e cs idx bt s 0)" .
    moreover from False 1(2) have "wait_loop e cs idx bt d s = Some y"
      by (subst wait_loop.simps)
         (auto simp: Let_def wait_goes_on_def read_reg_poll read_jiffies_def split: if_splits)
    ultimately have "y = wait_outcome e cs idx bt s 0" by simp
    with False show ?thesis by (intro exI [of _ 0]) simp
  next
    case True
    with 1(2) have "wl e cs idx bt d (next_round e cs idx s) = Some y"
      by (simp add: Let_def wait_goes_on_def next_round_def read_reg_poll read_jiffies_def)
    from 1(1) [OF this] obtain n where
      n: "list_all (wait_goes_on e cs idx bt d (next_round e cs idx s)) [0..<n]"
         "\<not> wait_goes_on e cs idx bt d (next_round e cs idx s) n"
         "y = wait_outcome e cs idx bt (next_round e cs idx s) n"
      by blast
    have "list_all (wait_goes_on e cs idx bt d s) [0..<Suc n]"
      unfolding list_all_upt
    proof (intro allI impI)
      fix i assume i: "i < Suc n"
      show "wait_goes_on e cs idx bt d s i"
      proof (cases i)
        case 0
        with True show ?thesis by simp
      next
        case (Suc k)
        with i n(1) show ?thesis by (simp add: list_all_upt goes_on_shift)
      qed
    qed
    with n(2,3) show ?thesis
      by (intro exI [of _ "Suc n"]) (simp add: goes_on_shift outcome_shift)
  qed
qed

text \<open>A wait for a bit of a register other than Config does not look at the controller state.\<close>

lemma wait_loop_any_state:
  assumes "idx \<noteq> KP_SPI_REG_CONFIG"
  shows "wait_loop e cs idx bt d s = wait_loop e cs2 idx bt d s"
proof -
  have pv: "poll_val e a idx k = readq_val e k idx"
    and pe: "poll_ev e a idx k = Readq idx (readq_val e k idx)"
    and br: "bus_reads a idx n = n" for a k n
    using assms by (simp_all add: poll_val_def poll_ev_def bus_reads_def cached_def)
  have g: "wait_goes_on e a idx bt d s i = wait_goes_on e b idx bt d s i" for a b i
    by (simp only: wait_goes_on_def pv)
  have o: "wait_outcome e a idx bt s n = wait_outcome e b idx bt s n" for a b n
    by (simp only: wait_outcome_def wait_rounds_def pv pe br)
  have imp: "wait_loop e b idx bt d s = Some y" if "wait_loop e a idx bt d s = Some y" for a b y
  proof -
    from wait_loop_ended [OF that] obtain n where
      n: "list_all (wait_goes_on e a idx bt d s) [0..<n]" "\<not> wait_goes_on e a idx bt d s n"
         "y = wait_outcome e a idx bt s n"
      by blast
    have "list_all (wait_goes_on e b idx bt d s) [0..<n]" "\<not> wait_goes_on e b idx bt d s n"
      using n(1,2) by (simp_all add: g [of a _ b] list_all_upt)
    from wait_loop_ends [OF this] n(3) show ?thesis by (simp add: o [of b n a])
  qed
  show ?thesis
  proof (cases "wait_loop e cs idx bt d s")
    case None
    show ?thesis
    proof (cases "wait_loop e cs2 idx bt d s")
      case n2: None
      with None show ?thesis by simp
    next
      case (Some y)
      from imp [OF Some, of cs] None show ?thesis by simp
    qed
  next
    case (Some y)
    from imp [OF Some, of cs2] Some show ?thesis by simp
  qed
qed

lemma wait_any_state:
  "kp_spi_wait_for_reg_bit e cs KP_SPI_REG_STATUS bt h
     = kp_spi_wait_for_reg_bit e cs2 KP_SPI_REG_STATUS bt h"
  by (simp add: kp_spi_wait_for_reg_bit_def Let_def wait_loop_any_state [of _ e cs _ _ _ cs2])

lemma sig_simps [simp]:
  "sig [] = []"
  "sig (ev # evs) = (if polling ev then sig evs else ev # sig evs)"
  "sig (xs @ ys) = sig xs @ sig ys"
  by (simp_all add: sig_def)

lemma read_reg_status_log:
  "\<exists>ev. log (snd (kp_spi_read_reg e cs KP_SPI_REG_STATUS h)) = log h @ [ev] \<and> polling ev"
  by (simp add: kp_spi_read_reg_def)

lemma wait_loop_status:
  assumes "wait_loop e cs idx bt timeout h = Some y" "idx = KP_SPI_REG_STATUS"
  shows "(fst y = 0 \<or> fst y = - ETIMEDOUT) \<and>
         (\<exists>evs. log (snd y) = log h @ evs
            \<and> sig evs = (if fst y = 0 then [] else [WaitTimeout KP_SPI_REG_STATUS bt]))"
  using assms
proof (induction rule: wait_loop.raw_induct [rotated 1, consumes 1])
  case (1 wl e cs idx bt timeout h y)
  let ?p = "kp_spi_read_reg e cs KP_SPI_REG_STATUS h"
  let ?j = "read_jiffies e (snd ?p)"
  let ?q = "kp_spi_read_reg e cs KP_SPI_REG_STATUS (snd ?j)"
  obtain rd where rd: "log (snd ?p) = log h @ [rd]" "polling rd"
    using read_reg_status_log by blast
  obtain rd2 where rd2: "log (snd ?q) = log (snd ?j) @ [rd2]" "polling rd2"
    using read_reg_status_log by blast
  note jl = read_jiffies_log [of e "snd ?p"]
  note idx = \<open>idx = KP_SPI_REG_STATUS\<close>
  show ?case
  proof (cases "fst ?p AND bt \<noteq> 0")
    case True
    with 1(2) idx have y: "y = (0, snd ?p)" by (simp add: Let_def)
    with rd show ?thesis by simp
  next
    case clear: False
    show ?thesis
    proof (cases "time_after (fst ?j) timeout")
      case after: True
      show ?thesis
      proof (cases "fst ?q AND bt = 0")
        case True
        with 1(2) clear after idx
        have y: "y = (- ETIMEDOUT, (snd ?q)\<lparr>log := log (snd ?q) @ [WaitTimeout idx bt]\<rparr>)"
          by (simp add: Let_def)
        with rd rd2 jl idx show ?thesis by simp
      next
        case False
        with 1(2) clear after idx have y: "y = (0, snd ?q)"
          by (simp add: Let_def)
        with rd rd2 jl show ?thesis by simp
      qed
    next
      case False
      with 1(2) clear idx have "wl e cs idx bt timeout (snd ?j) = Some y"
        by (simp add: Let_def)
      from 1(1) [OF this idx] obtain evs where
        pf: "fst y = 0 \<or> fst y = - ETIMEDOUT" "log (snd y) = log (snd ?j) @ evs"
            "sig evs = (if fst y = 0 then [] else [WaitTimeout KP_SPI_REG_STATUS bt])"
        by blast
      have "log (snd y) = log h @ (rd # Jiffies (fst ?j) # evs)"
        using pf rd jl by simp
      moreover have "sig (rd # Jiffies (fst ?j) # evs) = sig evs"
        using rd by simp
      ultimately show ?thesis using pf by metis
    qed
  qed
qed

lemma wait_status:
  assumes "kp_spi_wait_for_reg_bit e cs KP_SPI_REG_STATUS bt h = Some (r, h')"
  shows "(r = 0 \<or> r = - ETIMEDOUT) \<and>
         (\<exists>evs. log h' = log h @ evs
            \<and> sig evs = (if r = 0 then [] else [WaitTimeout KP_SPI_REG_STATUS bt]))"
proof -
  let ?j = "read_jiffies e h"
  from assms have "wait_loop e cs KP_SPI_REG_STATUS bt (fst ?j + msecs_to_jiffies_1000 e) (snd ?j) = Some (r, h')"
    by (simp add: kp_spi_wait_for_reg_bit_def Let_def)
  from wait_loop_status [OF this refl] obtain evs where
    e: "r = 0 \<or> r = - ETIMEDOUT" "log h' = log (snd ?j) @ evs"
       "sig evs = (if r = 0 then [] else [WaitTimeout KP_SPI_REG_STATUS bt])" by auto
  have "log h' = log h @ (Jiffies (fst ?j) # evs)"
    using e read_jiffies_log [of e h] by simp
  moreover have "sig (Jiffies (fst ?j) # evs) = sig evs" by simp
  ultimately show ?thesis using e by metis
qed

section \<open>The byte transfer primitive\<close>

lemma write_reg_data [simp]:
  "idx \<noteq> KP_SPI_REG_CONFIG \<Longrightarrow> fst (kp_spi_write_reg cs idx v h) = cs"
  "log (snd (kp_spi_write_reg cs idx v h)) = log h @ [Writeq idx v]"
  by (simp_all add: kp_spi_write_reg_def)

lemma read_reg_rxdata_log:
  "log (snd (kp_spi_read_reg e cs KP_SPI_REG_RXDATA h))
     = log h @ [Readq KP_SPI_REG_RXDATA (fst (kp_spi_read_reg e cs KP_SPI_REG_RXDATA h))]"
  by (simp add: kp_spi_read_reg_def)

lemma tx_loop_trace:
  assumes "kp_spi_tx_loop e cs tx c i p h = Some (fin, p', cs', h')" "i \<le> c"
  shows "cs' = cs \<and>
         (\<exists>k evs. i \<le> k \<and> k \<le> c \<and> (fin \<longleftrightarrow> k = c) \<and> p' = p + of_nat (k - i)
            \<and> log h' = log h @ evs
            \<and> sig evs = map (\<lambda>n. Writeq KP_SPI_REG_TXDATA (char_to_u64 (tx n))) [i..<k]
                          @ (if fin then []
                             else [WaitTimeout KP_SPI_REG_STATUS KP_SPI_REG_STATUS_TXS]))"
  using assms
proof (induction e cs tx c i p h rule: kp_spi_tx_loop.induct)
  case (1 e cs tx c i p h)
  note eq [simp] = kp_spi_tx_loop.simps [of e cs tx c i p h]
  show ?case
  proof (cases "i < c")
    case False
    with 1(2,3) have "fin" "p' = p" "cs' = cs" "h' = h" "i = c" by simp_all
    then show ?thesis by (intro conjI exI [of _ i] exI [of _ "[]"]) simp_all
  next
    case lt: True
    then obtain r h1 where
      w: "kp_spi_wait_for_reg_bit e cs KP_SPI_REG_STATUS KP_SPI_REG_STATUS_TXS h = Some (r, h1)"
      using 1(2) by (auto split: option.splits)
    from wait_status [OF w] obtain evs1 where
      r: "r = 0 \<or> r = - ETIMEDOUT" and
      l1: "log h1 = log h @ evs1" and
      s1: "sig evs1 = (if r = 0 then [] else [WaitTimeout KP_SPI_REG_STATUS KP_SPI_REG_STATUS_TXS])"
      by blast
    show ?thesis
    proof (cases "r < 0")
      case True
      with 1(2) lt w have "\<not> fin" "p' = p" "cs' = cs" "h' = h1" by simp_all
      moreover from True r have "r \<noteq> 0" by auto
      ultimately show ?thesis using l1 s1 lt
        by (intro conjI exI [of _ i] exI [of _ evs1]) simp_all
    next
      case False
      with r have r0: "r = 0" by auto
      let ?w = "kp_spi_write_reg cs KP_SPI_REG_TXDATA (char_to_u64 (tx i)) h1"
      have rec: "kp_spi_tx_loop e (fst ?w) tx c (Suc i) (p + 1) (snd ?w) = Some (fin, p', cs', h')"
        using 1(2) lt w False by simp
      from 1(1) [OF lt w refl False rec] lt obtain k evs2 where
        k: "cs' = cs" "Suc i \<le> k" "k \<le> c" "fin \<longleftrightarrow> k = c" "p' = p + 1 + of_nat (k - Suc i)"
           "log h' = log (snd ?w) @ evs2"
           "sig evs2 = map (\<lambda>n. Writeq KP_SPI_REG_TXDATA (char_to_u64 (tx n))) [Suc i..<k]
                          @ (if fin then []
                             else [WaitTimeout KP_SPI_REG_STATUS KP_SPI_REG_STATUS_TXS])"
        by auto
      have ik: "i < k" using k(2) by simp
      have p: "p' = p + of_nat (k - i)"
        using k(5) ik by (simp add: Suc_diff_Suc [symmetric] del: Suc_diff_Suc)
      have l: "log h' = log h @ (evs1 @ Writeq KP_SPI_REG_TXDATA (char_to_u64 (tx i)) # evs2)"
        using k(6) l1 by simp
      have s: "sig (evs1 @ Writeq KP_SPI_REG_TXDATA (char_to_u64 (tx i)) # evs2)
                = map (\<lambda>n. Writeq KP_SPI_REG_TXDATA (char_to_u64 (tx n))) [i..<k]
                          @ (if fin then []
                             else [WaitTimeout KP_SPI_REG_STATUS KP_SPI_REG_STATUS_TXS])"
        using s1 r0 k(7) ik by (simp add: upt_conv_Cons)
      from k(1,3,4) ik p l s show ?thesis
        by (intro conjI exI [of _ k] exI [of _ "evs1 @ Writeq KP_SPI_REG_TXDATA (char_to_u64 (tx i)) # evs2"]) simp_all
    qed
  qed
qed

lemma rx_loop_trace:
  assumes "kp_spi_rx_loop e cs rx c i p h = Some (fin, p', rx', cs', h')" "i \<le> c"
  shows "cs' = cs \<and>
         (\<exists>k vs evs. i \<le> k \<and> k \<le> c \<and> (fin \<longleftrightarrow> k = c) \<and> p' = p + of_nat (k - i)
            \<and> length vs = k - i
            \<and> log h' = log h @ evs
            \<and> sig evs = rx_pairs vs
                          @ (if fin then []
                             else [Writeq KP_SPI_REG_TXDATA 0,
                                   WaitTimeout KP_SPI_REG_STATUS KP_SPI_REG_STATUS_RXS])
            \<and> rx' = (\<lambda>n. if i \<le> n \<and> n < k then ucast (vs ! (n - i)) else rx n))"
  using assms
proof (induction e cs rx c i p h rule: kp_spi_rx_loop.induct)
  case (1 e cs rx c i p h)
  note eq [simp] = kp_spi_rx_loop.simps [of e cs rx c i p h]
  show ?case
  proof (cases "i < c")
    case False
    with 1(2,3) have "fin" "p' = p" "cs' = cs" "h' = h" "i = c" "rx' = rx" by simp_all
    then show ?thesis
      by (intro conjI exI [of _ i] exI [of _ "[]"]) (auto simp: rx_pairs_def fun_eq_iff)
  next
    case lt: True
    let ?w = "kp_spi_write_reg cs KP_SPI_REG_TXDATA 0 h"
    have fw: "fst ?w = cs" by simp
    obtain r h1 where
      w: "kp_spi_wait_for_reg_bit e (fst ?w) KP_SPI_REG_STATUS KP_SPI_REG_STATUS_RXS (snd ?w) = Some (r, h1)"
      using 1(2) lt by (auto simp: Let_def split: option.splits)
    from wait_status [OF w] obtain evs1 where
      r: "r = 0 \<or> r = - ETIMEDOUT" and
      l1: "log h1 = log h @ Writeq KP_SPI_REG_TXDATA 0 # evs1" and
      s1: "sig evs1 = (if r = 0 then [] else [WaitTimeout KP_SPI_REG_STATUS KP_SPI_REG_STATUS_RXS])"
      by auto
    show ?thesis
    proof (cases "r < 0")
      case True
      with 1(2) lt w have "\<not> fin" "p' = p" "cs' = cs" "h' = h1" "rx' = rx"
        by (simp_all add: Let_def)
      moreover from True r have "r \<noteq> 0" by auto
      ultimately show ?thesis using l1 s1 lt
        by (intro conjI exI [of _ i] exI [of _ "[]"] exI [of _ "Writeq KP_SPI_REG_TXDATA 0 # evs1"])
           (auto simp: rx_pairs_def fun_eq_iff)
    next
      case False
      with r have r0: "r = 0" by auto
      let ?rd = "kp_spi_read_reg e (fst ?w) KP_SPI_REG_RXDATA h1"
      let ?v = "fst ?rd"
      let ?rx1 = "rx(i := ucast ?v)"
      have rec: "kp_spi_rx_loop e (fst ?w) ?rx1 c (Suc i) (p + 1) (snd ?rd) = Some (fin, p', rx', cs', h')"
        using 1(2) lt w False by (simp add: Let_def)
      from 1(1) [OF lt refl w refl False rec] lt fw obtain k vs evs2 where
        k: "cs' = cs" "Suc i \<le> k" "k \<le> c" "fin \<longleftrightarrow> k = c" "p' = p + 1 + of_nat (k - Suc i)"
           "length vs = k - Suc i"
           "log h' = log (snd ?rd) @ evs2"
           "sig evs2 = rx_pairs vs
                          @ (if fin then []
                             else [Writeq KP_SPI_REG_TXDATA 0,
                                   WaitTimeout KP_SPI_REG_STATUS KP_SPI_REG_STATUS_RXS])"
           "rx' = (\<lambda>n. if Suc i \<le> n \<and> n < k then ucast (vs ! (n - Suc i)) else ?rx1 n)"
        by auto
      have ik: "i < k" using k(2) by simp
      have p: "p' = p + of_nat (k - i)"
        using k(5) ik by (simp add: Suc_diff_Suc [symmetric] del: Suc_diff_Suc)
      let ?evs = "Writeq KP_SPI_REG_TXDATA 0 # evs1 @ Readq KP_SPI_REG_RXDATA ?v # evs2"
      have l: "log h' = log h @ ?evs"
        using k(7) l1 read_reg_rxdata_log [of e "fst ?w" h1] by simp
      have s: "sig ?evs = rx_pairs (?v # vs)
                          @ (if fin then []
                             else [Writeq KP_SPI_REG_TXDATA 0,
                                   WaitTimeout KP_SPI_REG_STATUS KP_SPI_REG_STATUS_RXS])"
        using s1 r0 k(8) by (simp add: rx_pairs_def)
      have len: "length (?v # vs) = k - i" using k(6) ik by simp
      have rx: "rx' = (\<lambda>n. if i \<le> n \<and> n < k then ucast ((?v # vs) ! (n - i)) else rx n)"
        unfolding k(9) using ik by (auto simp: fun_eq_iff nth_Cons' )
      from k(1,3,4) ik p l s len rx show ?thesis
        by (intro conjI exI [of _ k] exI [of _ "?v # vs"] exI [of _ ?evs]) simp_all
    qed
  qed
qed

lemma wait_total:
  assumes "clock_progress e"
  obtains r h' where "kp_spi_wait_for_reg_bit e cs idx bt h = Some (r, h')"
  using kp_spi_wait_for_reg_bit_total [OF assms] by blast

lemma tx_loop_total:
  assumes "clock_progress e"
  shows "kp_spi_tx_loop e cs tx c i p h \<noteq> None"
  using assms
proof (induction e cs tx c i p h rule: kp_spi_tx_loop.induct)
  case (1 e cs tx c i p h)
  note eq [simp] = kp_spi_tx_loop.simps [of e cs tx c i p h]
  show ?case
  proof (cases "i < c")
    case False
    then show ?thesis by simp
  next
    case True
    obtain r h1 where
      w: "kp_spi_wait_for_reg_bit e cs KP_SPI_REG_STATUS KP_SPI_REG_STATUS_TXS h = Some (r, h1)"
      using wait_total [OF 1(2)] by blast
    show ?thesis
    proof (cases "r < 0")
      case True
      with w \<open>i < c\<close> show ?thesis by simp
    next
      case False
      have step: "kp_spi_tx_loop e cs tx c i p h =
          kp_spi_tx_loop e
            (fst (kp_spi_write_reg cs KP_SPI_REG_TXDATA (char_to_u64 (tx i)) h1))
            tx c (Suc i) (p + 1)
            (snd (kp_spi_write_reg cs KP_SPI_REG_TXDATA (char_to_u64 (tx i)) h1))"
        using w \<open>i < c\<close> False by simp
      show ?thesis
        unfolding step by (rule 1(1) [OF \<open>i < c\<close> w refl False 1(2)])
    qed
  qed
qed

lemma rx_loop_total:
  assumes "clock_progress e"
  shows "kp_spi_rx_loop e cs rx c i p h \<noteq> None"
  using assms
proof (induction e cs rx c i p h rule: kp_spi_rx_loop.induct)
  case (1 e cs rx c i p h)
  note eq [simp] = kp_spi_rx_loop.simps [of e cs rx c i p h]
  show ?case
  proof (cases "i < c")
    case False
    then show ?thesis by simp
  next
    case True
    let ?w = "kp_spi_write_reg cs KP_SPI_REG_TXDATA 0 h"
    obtain r h1 where
      w: "kp_spi_wait_for_reg_bit e (fst ?w) KP_SPI_REG_STATUS KP_SPI_REG_STATUS_RXS (snd ?w) = Some (r, h1)"
      using wait_total [OF 1(2)] by blast
    show ?thesis
    proof (cases "r < 0")
      case True
      with w \<open>i < c\<close> show ?thesis by (simp add: Let_def)
    next
      case False
      have step: "kp_spi_rx_loop e cs rx c i p h =
          kp_spi_rx_loop e (fst ?w)
            (rx(i := ucast (fst (kp_spi_read_reg e (fst ?w) KP_SPI_REG_RXDATA h1))))
            c (Suc i) (p + 1) (snd (kp_spi_read_reg e (fst ?w) KP_SPI_REG_RXDATA h1))"
        using w \<open>i < c\<close> False by (simp add: Let_def)
      show ?thesis
        unfolding step by (rule 1(1) [OF \<open>i < c\<close> refl w refl False 1(2)])
    qed
  qed
qed

lemma txrx_pio_tx:
  "tx_buf t = Some tx \<Longrightarrow> kp_spi_tx_loop e cs tx (unat (len t)) 0 0 h = Some (fin, p, cs1, h1) \<Longrightarrow>
   kp_spi_txrx_pio e cs t h =
     (if fin then
        (case kp_spi_wait_for_reg_bit e cs1 KP_SPI_REG_STATUS KP_SPI_REG_STATUS_EOT h1 of
           None \<Rightarrow> None | Some (r, h2) \<Rightarrow> Some (p, t, cs1, h2))
      else Some (p, t, cs1, h1))"
  by (simp add: kp_spi_txrx_pio_def)

lemma txrx_pio_rx:
  "tx_buf t = None \<Longrightarrow> rx_buf t = Some rx \<Longrightarrow>
   kp_spi_rx_loop e cs rx (unat (len t)) 0 0 h = Some (fin, p, rx1, cs1, h1) \<Longrightarrow>
   kp_spi_txrx_pio e cs t h =
     (if fin then
        (case kp_spi_wait_for_reg_bit e cs1 KP_SPI_REG_STATUS KP_SPI_REG_STATUS_EOT h1 of
           None \<Rightarrow> None | Some (r, h2) \<Rightarrow> Some (p, t\<lparr>rx_buf := Some rx1\<rparr>, cs1, h2))
      else Some (p, t\<lparr>rx_buf := Some rx1\<rparr>, cs1, h1))"
  by (simp add: kp_spi_txrx_pio_def)

lemma txrx_pio_none:
  "tx_buf t = None \<Longrightarrow> rx_buf t = None \<Longrightarrow>
   kp_spi_txrx_pio e cs t h =
     (case kp_spi_wait_for_reg_bit e cs KP_SPI_REG_STATUS KP_SPI_REG_STATUS_EOT h of
        None \<Rightarrow> None | Some (r, h2) \<Rightarrow> Some (0, t, cs, h2))"
  by (simp add: kp_spi_txrx_pio_def)

lemma txrx_pio_tx_None:
  "tx_buf t = Some tx \<Longrightarrow> kp_spi_tx_loop e cs tx (unat (len t)) 0 0 h = None \<Longrightarrow>
   kp_spi_txrx_pio e cs t h = None"
  by (simp add: kp_spi_txrx_pio_def)

lemma txrx_pio_rx_None:
  "tx_buf t = None \<Longrightarrow> rx_buf t = Some rx \<Longrightarrow>
   kp_spi_rx_loop e cs rx (unat (len t)) 0 0 h = None \<Longrightarrow>
   kp_spi_txrx_pio e cs t h = None"
  by (simp add: kp_spi_txrx_pio_def)

lemma txrx_pio_total:
  assumes "clock_progress e"
  shows "kp_spi_txrx_pio e cs t h \<noteq> None"
proof (cases "tx_buf t")
  case (Some tx)
  obtain fin p cs1 h1 where
    lp: "kp_spi_tx_loop e cs tx (unat (len t)) 0 0 h = Some (fin, p, cs1, h1)"
    using tx_loop_total [OF assms, of cs tx "unat (len t)" 0 0 h]
    by (cases "kp_spi_tx_loop e cs tx (unat (len t)) 0 0 h") auto
  obtain r h2 where
    "kp_spi_wait_for_reg_bit e cs1 KP_SPI_REG_STATUS KP_SPI_REG_STATUS_EOT h1 = Some (r, h2)"
    using wait_total [OF assms] by blast
  then show ?thesis
    by (simp add: txrx_pio_tx [OF Some lp])
next
  case None
  show ?thesis
  proof (cases "rx_buf t")
    case (Some rx)
    obtain fin p rx1 cs1 h1 where
      lp: "kp_spi_rx_loop e cs rx (unat (len t)) 0 0 h = Some (fin, p, rx1, cs1, h1)"
      using rx_loop_total [OF assms, of cs rx "unat (len t)" 0 0 h]
      by (cases "kp_spi_rx_loop e cs rx (unat (len t)) 0 0 h") auto
    obtain r h2 where
      "kp_spi_wait_for_reg_bit e cs1 KP_SPI_REG_STATUS KP_SPI_REG_STATUS_EOT h1 = Some (r, h2)"
      using wait_total [OF assms] by blast
    then show ?thesis
      by (simp add: txrx_pio_rx [OF None Some lp])
  next
    case n2: None
    obtain r h2 where
      "kp_spi_wait_for_reg_bit e cs KP_SPI_REG_STATUS KP_SPI_REG_STATUS_EOT h = Some (r, h2)"
      using wait_total [OF assms] by blast
    then show ?thesis
      by (simp add: txrx_pio_none [OF None n2])
  qed
qed

lemma rx_loop_trace0:
  assumes "kp_spi_rx_loop e cs rx c 0 0 h = Some (fin, p', rx', cs', h')"
  shows "cs' = cs \<and>
         (\<exists>k vs evs. k \<le> c \<and> (fin \<longleftrightarrow> k = c) \<and> p' = of_nat k
            \<and> length vs = k
            \<and> log h' = log h @ evs
            \<and> sig evs = rx_pairs vs
                          @ (if fin then []
                             else [Writeq KP_SPI_REG_TXDATA 0,
                                   WaitTimeout KP_SPI_REG_STATUS KP_SPI_REG_STATUS_RXS])
            \<and> rx' = (\<lambda>n. if n < k then ucast (vs ! n) else rx n))"
proof -
  from rx_loop_trace [OF assms] obtain k vs evs where
    k: "cs' = cs" "k \<le> c" "fin \<longleftrightarrow> k = c" "p' = 0 + of_nat (k - 0)" "length vs = k - 0"
       "log h' = log h @ evs"
       "sig evs = rx_pairs vs
                  @ (if fin then []
                     else [Writeq KP_SPI_REG_TXDATA 0,
                           WaitTimeout KP_SPI_REG_STATUS KP_SPI_REG_STATUS_RXS])"
       "rx' = (\<lambda>n. if 0 \<le> n \<and> n < k then ucast (vs ! (n - 0)) else rx n)"
    by blast
  have "rx' = (\<lambda>n. if n < k then ucast (vs ! n) else rx n)"
    unfolding k(8) by (simp add: fun_eq_iff)
  with k show ?thesis
    by (intro conjI exI [of _ k] exI [of _ vs] exI [of _ evs]) simp_all
qed

lemma txrx_pio_trace:
  assumes "kp_spi_txrx_pio e cs t h = Some (count, t', cs', h')"
  shows "cs' = cs \<and>
         (\<exists>k evs. k \<le> unat (len t) \<and> count = of_nat k \<and> log h' = log h @ evs
            \<and> txrx_trace t k evs t')"
proof -
  have eot: "\<exists>evs eot. log h2 = log h1 @ evs \<and> sig evs = eot \<and>
             (eot = [] \<or> eot = [WaitTimeout KP_SPI_REG_STATUS KP_SPI_REG_STATUS_EOT])"
    if "kp_spi_wait_for_reg_bit e cs1 KP_SPI_REG_STATUS KP_SPI_REG_STATUS_EOT h1 = Some (r, h2)"
    for cs1 h1 r h2
    using wait_status [OF that] by auto
  show ?thesis
  proof (cases "tx_buf t")
    case (Some tx)
    obtain fin p cs1 h1 where
      lp: "kp_spi_tx_loop e cs tx (unat (len t)) 0 0 h = Some (fin, p, cs1, h1)"
    proof (cases "kp_spi_tx_loop e cs tx (unat (len t)) 0 0 h")
      case None
      with assms txrx_pio_tx_None [OF Some None] show ?thesis by simp
    next
      case (Some y)
      with that show ?thesis by (cases y) auto
    qed
    note eq = txrx_pio_tx [OF Some lp]
    from tx_loop_trace [OF lp] obtain k evs where
      k: "cs1 = cs" "k \<le> unat (len t)" "fin \<longleftrightarrow> k = unat (len t)" "p = of_nat k"
         "log h1 = log h @ evs"
         "sig evs = map (\<lambda>n. Writeq KP_SPI_REG_TXDATA (char_to_u64 (tx n))) [0..<k]
                      @ (if fin then [] else [WaitTimeout KP_SPI_REG_STATUS KP_SPI_REG_STATUS_TXS])"
      by auto
    show ?thesis
    proof (cases fin)
      case True
      with assms eq obtain r where
        w: "kp_spi_wait_for_reg_bit e cs1 KP_SPI_REG_STATUS KP_SPI_REG_STATUS_EOT h1 = Some (r, h')"
        and r: "count = p" "t' = t" "cs' = cs1"
        by (auto split: option.splits)
      from eot [OF w] obtain evs2 eot where
        e2: "log h' = log h1 @ evs2" "sig evs2 = eot"
            "eot = [] \<or> eot = [WaitTimeout KP_SPI_REG_STATUS KP_SPI_REG_STATUS_EOT]" by blast
      have "txrx_trace t k (evs @ evs2) t'"
        unfolding txrx_trace_def using Some k True e2 r by (intro exI [of _ eot]) simp
      with k r e2 show ?thesis
        by (intro conjI exI [of _ k] exI [of _ "evs @ evs2"]) simp_all
    next
      case False
      with assms eq have r: "count = p" "t' = t" "cs' = cs1" "h' = h1"
        by auto
      have "txrx_trace t k evs t'"
        unfolding txrx_trace_def using Some k False r by (intro exI [of _ "[]"]) simp
      with k r show ?thesis
        by (intro conjI exI [of _ k] exI [of _ evs]) simp_all
    qed
  next
    case None
    show ?thesis
    proof (cases "rx_buf t")
      case (Some rx)
      obtain fin p rx1 cs1 h1 where
        lp: "kp_spi_rx_loop e cs rx (unat (len t)) 0 0 h = Some (fin, p, rx1, cs1, h1)"
      proof (cases "kp_spi_rx_loop e cs rx (unat (len t)) 0 0 h")
        case n: None
        with assms txrx_pio_rx_None [OF None Some n] show ?thesis by simp
      next
        case (Some y)
        with that show ?thesis by (cases y) auto
      qed
      note eq = txrx_pio_rx [OF None Some lp]
      from rx_loop_trace0 [OF lp] obtain k vs evs where
        k: "cs1 = cs" "k \<le> unat (len t)" "fin \<longleftrightarrow> k = unat (len t)" "p = of_nat k"
           "length vs = k" "log h1 = log h @ evs"
           "sig evs = rx_pairs vs
                      @ (if fin then []
                         else [Writeq KP_SPI_REG_TXDATA 0,
                               WaitTimeout KP_SPI_REG_STATUS KP_SPI_REG_STATUS_RXS])"
           "rx1 = (\<lambda>n. if n < k then ucast (vs ! n) else rx n)"
        by auto
      show ?thesis
      proof (cases fin)
        case True
        with assms eq obtain r where
          w: "kp_spi_wait_for_reg_bit e cs1 KP_SPI_REG_STATUS KP_SPI_REG_STATUS_EOT h1 = Some (r, h')"
          and r: "count = p" "t' = t\<lparr>rx_buf := Some rx1\<rparr>" "cs' = cs1"
          by (auto split: option.splits)
        from eot [OF w] obtain evs2 eot where
          e2: "log h' = log h1 @ evs2" "sig evs2 = eot"
              "eot = [] \<or> eot = [WaitTimeout KP_SPI_REG_STATUS KP_SPI_REG_STATUS_EOT]" by blast
        have "txrx_trace t k (evs @ evs2) t'"
          unfolding txrx_trace_def using Some None k True e2 r
          by (intro exI [of _ eot]) (simp, intro exI [of _ vs], simp)
        with k r e2 show ?thesis
          by (intro conjI exI [of _ k] exI [of _ "evs @ evs2"]) simp_all
      next
        case False
        with assms eq have r: "count = p" "t' = t\<lparr>rx_buf := Some rx1\<rparr>" "cs' = cs1" "h' = h1"
          by auto
        have "txrx_trace t k evs t'"
          unfolding txrx_trace_def using Some None k False r
          by (intro exI [of _ "[]"]) (simp, intro exI [of _ vs], simp)
        with k r show ?thesis
          by (intro conjI exI [of _ k] exI [of _ evs]) simp_all
      qed
    next
      case n2: None
      with assms txrx_pio_none [OF None n2, of e cs h] obtain r where
        w: "kp_spi_wait_for_reg_bit e cs KP_SPI_REG_STATUS KP_SPI_REG_STATUS_EOT h = Some (r, h')"
        and r: "count = 0" "t' = t" "cs' = cs"
        by (auto split: option.splits)
      from eot [OF w] obtain evs2 eot where
        e2: "log h' = log h @ evs2" "sig evs2 = eot"
            "eot = [] \<or> eot = [WaitTimeout KP_SPI_REG_STATUS KP_SPI_REG_STATUS_EOT]" by blast
      have "txrx_trace t 0 evs2 t'"
        unfolding txrx_trace_def using None n2 e2 r by (intro exI [of _ eot]) simp
      with r e2 show ?thesis
        by (intro conjI exI [of _ 0] exI [of _ evs2]) simp_all
    qed
  qed
qed

section \<open>The claims\<close>

subsection \<open>Waiting for a bit\<close>

lemma clock_progress_slow: "clock_progress env_slow"
  unfolding clock_progress_def
proof (intro allI)
  fix k
  have "time_after (jiffies_val env_slow (k + 3))
          (jiffies_val env_slow k + msecs_to_jiffies_1000 env_slow)"
    by (simp add: env_slow_def time_after_def algebra_simps)
  then show "\<exists>j>k. time_after (jiffies_val env_slow j)
          (jiffies_val env_slow k + msecs_to_jiffies_1000 env_slow)"
    by (intro exI [of _ "k + 3"]) simp
qed

lemmas wait_eval_defs =
  wait_goes_on_def wait_outcome_def wait_rounds_def poll_val_def poll_ev_def bus_reads_def
  cached_def read_jiffies_def time_after_def

text \<open>
  C6. \<^verbatim>\<open>kp_spi_wait_for_reg_bit\<close>, with \<open>s\<close> the state after its first clock read and
  the deadline that reading plus \<^verbatim>\<open>msecs_to_jiffies(1000)\<close>. It returns when the clock
  goes on. Whenever round \<open>n\<close> is the first after which the wait does not go on
  (every earlier round read the bit clear and the clock not after the deadline),
  it returns what \<open>wait_outcome\<close> says for \<open>n\<close>: 0 if the poll of round \<open>n\<close> reads the
  bit set, 0 as well if the clock is then read after the deadline and the one
  read that follows shows the bit set (the re-check at the deadline boundary),
  and \<^verbatim>\<open>-ETIMEDOUT\<close> if that one read shows it clear. And whenever it returns, there
  is such a round: the result is 0 or \<^verbatim>\<open>-ETIMEDOUT\<close>, and it is \<^verbatim>\<open>-ETIMEDOUT\<close> exactly
  when the poll of that round read the bit clear, the clock was read after the
  deadline, and the one final read still showed the bit clear. The values are
  those the environment gives at the positions of the reads, and the state left
  counts the reads made.
\<close>

theorem kp_spi_wait_for_reg_bit_outcome:
  "(let s = snd (read_jiffies e h);
        deadline = fst (read_jiffies e h) + msecs_to_jiffies_1000 e
    in (clock_progress e \<longrightarrow> kp_spi_wait_for_reg_bit e cs idx bt h \<noteq> None)
       \<and> (\<forall>n. list_all (wait_goes_on e cs idx bt deadline s) [0..<n]
                \<and> \<not> wait_goes_on e cs idx bt deadline s n
              \<longrightarrow> kp_spi_wait_for_reg_bit e cs idx bt h = Some (wait_outcome e cs idx bt s n))
       \<and> (\<forall>r h'. kp_spi_wait_for_reg_bit e cs idx bt h = Some (r, h') \<longrightarrow>
             (\<exists>n. list_all (wait_goes_on e cs idx bt deadline s) [0..<n]
                \<and> \<not> wait_goes_on e cs idx bt deadline s n
                \<and> (r, h') = wait_outcome e cs idx bt s n
                \<and> (r = 0 \<or> r = - ETIMEDOUT)
                \<and> (r = - ETIMEDOUT \<longleftrightarrow>
                      poll_val e cs idx (n_readq s + n) AND bt = 0
                      \<and> time_after (jiffies_val e (n_jiffies s + n)) deadline
                      \<and> poll_val e cs idx (n_readq s + Suc n) AND bt = 0))))"
proof -
  let ?s = "snd (read_jiffies e h)"
  let ?d = "fst (read_jiffies e h) + msecs_to_jiffies_1000 e"
  have w: "kp_spi_wait_for_reg_bit e cs idx bt h = wait_loop e cs idx bt ?d ?s"
    by (simp add: kp_spi_wait_for_reg_bit_def Let_def)
  have 1: "kp_spi_wait_for_reg_bit e cs idx bt h \<noteq> None" if "clock_progress e"
    using kp_spi_wait_for_reg_bit_total [OF that, of cs idx bt h] by auto
  have 2: "kp_spi_wait_for_reg_bit e cs idx bt h = Some (wait_outcome e cs idx bt ?s n)"
    if "list_all (wait_goes_on e cs idx bt ?d ?s) [0..<n] \<and> \<not> wait_goes_on e cs idx bt ?d ?s n" for n
    unfolding w using that by (intro wait_loop_ends) simp_all
  have 3: "\<exists>n. list_all (wait_goes_on e cs idx bt ?d ?s) [0..<n]
                \<and> \<not> wait_goes_on e cs idx bt ?d ?s n
                \<and> (r, h') = wait_outcome e cs idx bt ?s n
                \<and> (r = 0 \<or> r = - ETIMEDOUT)
                \<and> (r = - ETIMEDOUT \<longleftrightarrow>
                      poll_val e cs idx (n_readq ?s + n) AND bt = 0
                      \<and> time_after (jiffies_val e (n_jiffies ?s + n)) ?d
                      \<and> poll_val e cs idx (n_readq ?s + Suc n) AND bt = 0)"
    if "kp_spi_wait_for_reg_bit e cs idx bt h = Some (r, h')" for r h'
  proof -
    from that have "wait_loop e cs idx bt ?d ?s = Some (r, h')" by (simp add: w)
    from wait_loop_ended [OF this] obtain n where
      n: "list_all (wait_goes_on e cs idx bt ?d ?s) [0..<n]"
         "\<not> wait_goes_on e cs idx bt ?d ?s n"
         "(r, h') = wait_outcome e cs idx bt ?s n"
      by blast
    from n(3) have r: "r = fst (wait_outcome e cs idx bt ?s n)" by (metis fst_conv)
    have "r = 0 \<or> r = - ETIMEDOUT"
      unfolding r by (simp add: wait_outcome_def Let_def)
    moreover have "r = - ETIMEDOUT \<longleftrightarrow>
                      poll_val e cs idx (n_readq ?s + n) AND bt = 0
                      \<and> time_after (jiffies_val e (n_jiffies ?s + n)) ?d
                      \<and> poll_val e cs idx (n_readq ?s + Suc n) AND bt = 0"
      unfolding r using n(2) by (auto simp: wait_outcome_def Let_def wait_goes_on_def)
    ultimately show ?thesis using n by blast
  qed
  from 1 2 3 show ?thesis unfolding Let_def by blast
qed

theorem kp_spi_wait_for_reg_bit_outcome_witness:
  "clock_progress env_slow
   \<and> kp_spi_wait_for_reg_bit env_slow cs0 KP_SPI_REG_STATUS KP_SPI_REG_STATUS_EOT hw0
       = Some (0, \<lparr>n_readq = 3, n_jiffies = 3,
                   log = [Jiffies 0, Readq KP_SPI_REG_STATUS 0, Jiffies 400,
                          Readq KP_SPI_REG_STATUS 0, Jiffies 800,
                          Readq KP_SPI_REG_STATUS 4]\<rparr>)
   \<and> kp_spi_wait_for_reg_bit env_boundary cs0 KP_SPI_REG_STATUS KP_SPI_REG_STATUS_EOT hw0
       = Some (0, \<lparr>n_readq = 2, n_jiffies = 2,
                   log = [Jiffies 0, Readq KP_SPI_REG_STATUS 0, Jiffies 2000,
                          Readq KP_SPI_REG_STATUS 4]\<rparr>)
   \<and> kp_spi_wait_for_reg_bit env_stuck cs0 KP_SPI_REG_STATUS KP_SPI_REG_STATUS_EOT hw0
       = Some (- ETIMEDOUT, \<lparr>n_readq = 2, n_jiffies = 2,
                   log = [Jiffies 0, Readq KP_SPI_REG_STATUS 0, Jiffies 2000,
                          Readq KP_SPI_REG_STATUS 0,
                          WaitTimeout KP_SPI_REG_STATUS KP_SPI_REG_STATUS_EOT]\<rparr>)"
proof -
  note slow = kp_spi_wait_for_reg_bit_outcome
                [of env_slow hw0 cs0 KP_SPI_REG_STATUS KP_SPI_REG_STATUS_EOT,
                 unfolded Let_def, THEN conjunct2, THEN conjunct1, rule_format, of "Suc (Suc 0)"]
  note boundary = kp_spi_wait_for_reg_bit_outcome
                [of env_boundary hw0 cs0 KP_SPI_REG_STATUS KP_SPI_REG_STATUS_EOT,
                 unfolded Let_def, THEN conjunct2, THEN conjunct1, rule_format, of 0]
  note stuck = kp_spi_wait_for_reg_bit_outcome
                [of env_stuck hw0 cs0 KP_SPI_REG_STATUS KP_SPI_REG_STATUS_EOT,
                 unfolded Let_def, THEN conjunct2, THEN conjunct1, rule_format, of 0]
  have 1: "kp_spi_wait_for_reg_bit env_slow cs0 KP_SPI_REG_STATUS KP_SPI_REG_STATUS_EOT hw0
       = Some (0, \<lparr>n_readq = 3, n_jiffies = 3,
                   log = [Jiffies 0, Readq KP_SPI_REG_STATUS 0, Jiffies 400,
                          Readq KP_SPI_REG_STATUS 0, Jiffies 800,
                          Readq KP_SPI_REG_STATUS 4]\<rparr>)"
    using slow by (simp add: wait_eval_defs env_slow_def cs0_def hw0_def)
  have 2: "kp_spi_wait_for_reg_bit env_boundary cs0 KP_SPI_REG_STATUS KP_SPI_REG_STATUS_EOT hw0
       = Some (0, \<lparr>n_readq = 2, n_jiffies = 2,
                   log = [Jiffies 0, Readq KP_SPI_REG_STATUS 0, Jiffies 2000,
                          Readq KP_SPI_REG_STATUS 4]\<rparr>)"
    using boundary by (simp add: wait_eval_defs env_boundary_def cs0_def hw0_def)
  have 3: "kp_spi_wait_for_reg_bit env_stuck cs0 KP_SPI_REG_STATUS KP_SPI_REG_STATUS_EOT hw0
       = Some (- ETIMEDOUT, \<lparr>n_readq = 2, n_jiffies = 2,
                   log = [Jiffies 0, Readq KP_SPI_REG_STATUS 0, Jiffies 2000,
                          Readq KP_SPI_REG_STATUS 0,
                          WaitTimeout KP_SPI_REG_STATUS KP_SPI_REG_STATUS_EOT]\<rparr>)"
    using stuck by (simp add: wait_eval_defs env_stuck_def cs0_def hw0_def)
  from clock_progress_slow 1 2 3 show ?thesis by blast
qed

subsection \<open>Validation\<close>

lemma validate_iff: "kp_spi_validate ts \<longleftrightarrow> \<not> (\<exists>t \<in> set ts. invalid_transfer t)"
proof (induction ts)
  case Nil
  show ?case by simp
next
  case (Cons t ts)
  have 1: "KP_SPI_CLK < speed_hz t \<longleftrightarrow> 48000000 < unat (speed_hz t)"
    by (simp add: word_less_nat_alt)
  have 2: "speed_hz t < drop_bit 15 KP_SPI_CLK \<longleftrightarrow> unat (speed_hz t) < 48000000 div 32768"
    by (simp add: word_less_nat_alt)
  show ?case
    unfolding kp_spi_validate.simps Cons.IH 1 2 by (auto simp: invalid_transfer_def)
qed

text \<open>
  C2. \<^verbatim>\<open>kp_spi_transfer_one_message\<close> returns \<^verbatim>\<open>-EINVAL\<close> if and only if the message has
  no transfer, or some transfer asks for more than 48,000,000 Hz, or for a non-zero
  speed below 48,000,000 / 32768 Hz, or has a length and neither buffer. It then
  leaves the device and the hardware state as they were, the log included: no
  register is read or written, wherever in the message the rejected transfer is.
\<close>

theorem transfer_one_message_einval:
  "((\<exists>m' spidev' h'. kp_spi_transfer_one_message e spidev m h
        = Some (Returns (- EINVAL), m', spidev', h')) \<longleftrightarrow> invalid_message m)
   \<and> (invalid_message m \<longrightarrow>
         kp_spi_transfer_one_message e spidev m h
           = Some (Returns (- EINVAL), m\<lparr>actual_length := 0, status := 0\<rparr>, spidev, h))"
proof -
  have inv: "kp_spi_transfer_one_message e spidev m h
           = Some (Returns (- EINVAL), m\<lparr>actual_length := 0, status := 0\<rparr>, spidev, h)"
    if "invalid_message m"
    using that by (auto simp: kp_spi_transfer_one_message_def invalid_message_def validate_iff Let_def)
  have val: "invalid_message m"
    if "kp_spi_transfer_one_message e spidev m h = Some (Returns (- EINVAL), m', spidev', h')"
    for m' spidev' h'
  proof (rule ccontr)
    assume "\<not> invalid_message m"
    then have v: "transfers m \<noteq> []" "kp_spi_validate (transfers m)"
      by (auto simp: invalid_message_def validate_iff)
    with that show False
      by (auto simp: kp_spi_transfer_one_message_def Let_def split: option.splits if_splits)
  qed
  from inv val show ?thesis by blast
qed

theorem transfer_one_message_einval_witness:
  "invalid_message msg_fast
   \<and> kp_spi_transfer_one_message env_count dev0 msg_fast hw0
       = Some (Returns (- EINVAL), msg_fast\<lparr>actual_length := 0, status := 0\<rparr>, dev0, hw0)"
proof -
  have h: "invalid_message msg_fast"
    by (simp add: invalid_message_def invalid_transfer_def msg_fast_def xfer_fast_def)
  from h transfer_one_message_einval [of env_count dev0 msg_fast hw0] show ?thesis by blast
qed

subsection \<open>Setup\<close>

lemma get_set_same:
  "off + w \<le> 32 \<Longrightarrow> get_field off w (set_field off w v reg) = v AND mask w"
  unfolding get_field_def set_field_def
  by (rule bit_word_eqI) (auto simp: bit_simps)

lemma get_set_other:
  "off1 + w1 \<le> off2 \<or> off2 + w2 \<le> off1 \<Longrightarrow>
   get_field off1 w1 (set_field off2 w2 v reg) = get_field off1 w1 reg"
  unfolding get_field_def set_field_def
  by (rule bit_word_eqI) (auto simp: bit_simps dest: bit_imp_le_length)

lemmas field_defs =
  set_wl_def set_trm_def set_cs_def set_ffen_def set_spi_en_def
  get_dpe_def get_wl_def get_trm_def get_cs_def get_ffen_def get_spi_en_def

lemma sint_ucast_u32 [simp]: "0 \<le> sint (ucast (x :: u32) :: u64)"
proof -
  have "\<not> bit (ucast x :: u64) (LENGTH(64) - Suc 0)"
    by (auto simp: bit_simps dest: bit_imp_le_length)
  then show ?thesis by (simp only: bit_last_iff)
qed

lemma ucast_u32_u64_u32 [simp]: "(ucast (ucast (x :: u32) :: u64) :: u32) = x"
  by (rule bit_word_eqI) (auto simp: bit_simps)

text \<open>
  What \<^verbatim>\<open>kp_spi_setup\<close> writes when it succeeds: the fields it assigns are as the
  device says, and the transmission-enable bit (dpe, bit 3), which it does not
  assign, is the bit of the local it never initialised.
\<close>

lemma kp_spi_setup_fields:
  assumes "kp_spi_setup alloc_ok sc0 spidev h = (0, spidev', h')"
  shows "\<exists>v. h' = h\<lparr>log := log h @ [Writeq KP_SPI_REG_CONFIG (ucast v)]\<rparr>
            \<and> get_spi_en v = 0 \<and> get_trm v = 0 \<and> get_ffen v = 0
            \<and> get_wl v = (ucast (dev_bits_per_word spidev) - 1) AND mask 5
            \<and> get_cs v = ucast (chip_select spidev) AND mask 4
            \<and> get_dpe v = get_dpe sc0"
proof (cases "kp_spi_setup_state alloc_ok spidev")
  case None
  with assms show ?thesis by (simp add: kp_spi_setup_def)
next
  case (Some cs)
  let ?v = "set_ffen 0 (set_trm 0 (set_spi_en 0
              (set_cs (ucast (chip_select spidev))
                 (set_wl (ucast (dev_bits_per_word spidev) - 1) sc0))))"
  from assms Some have "h' = h\<lparr>log := log h @ [Writeq KP_SPI_REG_CONFIG (ucast ?v)]\<rparr>"
    by (auto simp: kp_spi_setup_def Let_def kp_spi_write_reg_def)
  moreover have "get_spi_en ?v = 0" "get_trm ?v = 0" "get_ffen ?v = 0"
    "get_wl ?v = (ucast (dev_bits_per_word spidev) - 1) AND mask 5"
    "get_cs ?v = ucast (chip_select spidev) AND mask 4"
    "get_dpe ?v = get_dpe sc0"
    by (simp_all add: field_defs get_set_same get_set_other)
  ultimately show ?thesis by blast
qed

text \<open>
  C8. On its first call for a device \<^verbatim>\<open>kp_spi_setup\<close> allocates the session state
  with the cache at its sentinel and writes a Config value with the SPI-enable,
  transfer-mode and FIFO-enable fields cleared, the word length and the
  chip-select index from the device. The transmission-enable bit it writes is
  not cleared: \<^verbatim>\<open>union kp_spi_config sc\<close> is a local the function never initialises,
  and the function assigns every field of it the claim names but this one. With
  8 in the local's stack slot the value written is \<open>0x4078\<close>, transmission-enable
  set; with 0 there it is \<open>0x4070\<close>.
\<close>

theorem kp_spi_setup_stack_dpe:
  "kp_spi_setup_state True dev_new = Some cs_unset
   \<and> kp_spi_setup True 8 dev_new hw0
       = (0, dev_new\<lparr>controller_state := Some (cs_unset\<lparr>conf_cache := 0x4078\<rparr>)\<rparr>,
          \<lparr>n_readq = 0, n_jiffies = 0, log = [Writeq KP_SPI_REG_CONFIG 0x4078]\<rparr>)
   \<and> get_dpe 0x4078 = 1
   \<and> get_spi_en 0x4078 = 0 \<and> get_trm 0x4078 = 0 \<and> get_ffen 0x4078 = 0
   \<and> get_wl 0x4078 = 7 \<and> get_cs 0x4078 = 1
   \<and> kp_spi_setup True 0 dev_new hw0
       = (0, dev_new\<lparr>controller_state := Some (cs_unset\<lparr>conf_cache := 0x4070\<rparr>)\<rparr>,
          \<lparr>n_readq = 0, n_jiffies = 0, log = [Writeq KP_SPI_REG_CONFIG 0x4070]\<rparr>)
   \<and> get_dpe 0x4070 = 0"
  by (simp add: kp_spi_setup_def kp_spi_setup_state_def dev_new_def cs_unset_def hw0_def
        kp_spi_write_reg_def Let_def field_defs set_field_def get_field_def mask_eq_exp_minus_1)

subsection \<open>The cache stays populated\<close>

text \<open>
  A setup that succeeds leaves the cache populated, and the sequencer keeps it so:
  every value written to Config comes from the 32-bit \<^verbatim>\<open>sc.reg\<close>.
\<close>

lemma setup_populates_cache:
  assumes "kp_spi_setup alloc_ok sc0 spidev h = (0, spidev', h')"
  shows "\<exists>cs. controller_state spidev' = Some cs \<and> 0 \<le> sint (conf_cache cs)"
proof (cases "kp_spi_setup_state alloc_ok spidev")
  case None
  with assms show ?thesis by (simp add: kp_spi_setup_def)
next
  case (Some cs)
  with assms show ?thesis
    by (auto simp: kp_spi_setup_def Let_def kp_spi_write_reg_def sint_ucast_u32)
qed

lemma message_keeps_cache:
  assumes "kp_spi_transfer_one_message e spidev m h = Some (r, m', spidev', h')"
      and "controller_state spidev = Some cs" "0 \<le> sint (conf_cache cs)"
  shows "\<exists>cs'. controller_state spidev' = Some cs' \<and> 0 \<le> sint (conf_cache cs')"
  using assms
  by (auto simp: kp_spi_transfer_one_message_def Let_def kp_spi_write_reg_def sint_ucast_u32
           split: option.splits if_splits)

section \<open>The message sequencer\<close>

lemma unit_timeout_not_polling: "unit_timeout ev \<Longrightarrow> \<not> polling ev"
  by (cases ev) auto

lemma list_ex_unit_sig [simp]: "list_ex unit_timeout (sig evs) = list_ex unit_timeout evs"
  by (induction evs) (auto dest: unit_timeout_not_polling)

lemma unit_timeout_is_timeout: "list_ex unit_timeout evs \<Longrightarrow> list_ex is_timeout evs"
  by (induction evs) (auto elim: unit_timeout.elims)

lemma list_ex_sig: "list_ex P (sig evs) \<Longrightarrow> list_ex P evs"
  by (induction evs) (auto split: if_splits)

lemma no_unit_rx_pairs [simp]: "\<not> list_ex unit_timeout (rx_pairs vs)"
  by (induction vs) (simp_all add: rx_pairs_def)

lemma no_unit_tx_writes [simp]:
  "\<not> list_ex unit_timeout (map (\<lambda>n. Writeq KP_SPI_REG_TXDATA (f n)) ns)"
  by (induction ns) simp_all

text \<open>The primitive falls short exactly when a per-unit wait timed out, and then stops.\<close>

lemma txrx_trace_units:
  assumes "txrx_trace t k evs t'" "has_buf t"
  shows "if k = unat (len t) then \<not> list_ex unit_timeout evs
         else \<exists>pre w. sig evs = pre @ [w] \<and> unit_timeout w \<and> \<not> list_ex unit_timeout pre"
proof -
  from assms(1) obtain eot where
    eot: "eot = [] \<or> eot = [WaitTimeout KP_SPI_REG_STATUS KP_SPI_REG_STATUS_EOT]" and
    c: "case tx_buf t of
           Some tx \<Rightarrow>
             t' = t \<and>
             sig evs = map (\<lambda>n. Writeq KP_SPI_REG_TXDATA (char_to_u64 (tx n))) [0..<k]
                       @ (if k = unat (len t) then eot
                          else [WaitTimeout KP_SPI_REG_STATUS KP_SPI_REG_STATUS_TXS])
         | None \<Rightarrow>
             (case rx_buf t of
                Some rx \<Rightarrow>
                  (\<exists>vs. length vs = k \<and>
                     t' = t\<lparr>rx_buf := Some (\<lambda>n. if n < k then ucast (vs ! n) else rx n)\<rparr> \<and>
                     sig evs = rx_pairs vs
                               @ (if k = unat (len t) then eot
                                  else [Writeq KP_SPI_REG_TXDATA 0,
                                        WaitTimeout KP_SPI_REG_STATUS KP_SPI_REG_STATUS_RXS]))
              | None \<Rightarrow> k = 0 \<and> t' = t \<and> sig evs = eot)"
    unfolding txrx_trace_def by blast
  have ne: "\<not> list_ex unit_timeout eot" using eot by auto
  show ?thesis
  proof (cases "tx_buf t")
    case (Some tx)
    with c have s: "sig evs = map (\<lambda>n. Writeq KP_SPI_REG_TXDATA (char_to_u64 (tx n))) [0..<k]
                       @ (if k = unat (len t) then eot
                          else [WaitTimeout KP_SPI_REG_STATUS KP_SPI_REG_STATUS_TXS])"
      by simp
    show ?thesis
    proof (cases "k = unat (len t)")
      case True
      with s ne have "\<not> list_ex unit_timeout (sig evs)" by simp
      with True show ?thesis by simp
    next
      case False
      with s have "sig evs = map (\<lambda>n. Writeq KP_SPI_REG_TXDATA (char_to_u64 (tx n))) [0..<k]
                      @ [WaitTimeout KP_SPI_REG_STATUS KP_SPI_REG_STATUS_TXS]" by simp
      moreover have "unit_timeout (WaitTimeout KP_SPI_REG_STATUS KP_SPI_REG_STATUS_TXS)" by simp
      moreover have "\<not> list_ex unit_timeout
                        (map (\<lambda>n. Writeq KP_SPI_REG_TXDATA (char_to_u64 (tx n))) [0..<k])" by simp
      ultimately have "\<exists>pre w. sig evs = pre @ [w] \<and> unit_timeout w \<and> \<not> list_ex unit_timeout pre"
        by blast
      with False show ?thesis by simp
    qed
  next
    case None
    with assms(2) obtain rx where rx: "rx_buf t = Some rx" by (auto simp: has_buf_def)
    with c None obtain vs where
      s: "sig evs = rx_pairs vs
                   @ (if k = unat (len t) then eot
                      else [Writeq KP_SPI_REG_TXDATA 0,
                            WaitTimeout KP_SPI_REG_STATUS KP_SPI_REG_STATUS_RXS])"
      by auto
    show ?thesis
    proof (cases "k = unat (len t)")
      case True
      with s ne have "\<not> list_ex unit_timeout (sig evs)" by simp
      with True show ?thesis by simp
    next
      case False
      with s have "sig evs = (rx_pairs vs @ [Writeq KP_SPI_REG_TXDATA 0])
                      @ [WaitTimeout KP_SPI_REG_STATUS KP_SPI_REG_STATUS_RXS]" by simp
      moreover have "unit_timeout (WaitTimeout KP_SPI_REG_STATUS KP_SPI_REG_STATUS_RXS)" by simp
      moreover have "\<not> list_ex unit_timeout (rx_pairs vs @ [Writeq KP_SPI_REG_TXDATA 0])" by simp
      ultimately have "\<exists>pre w. sig evs = pre @ [w] \<and> unit_timeout w \<and> \<not> list_ex unit_timeout pre"
        by blast
      with False show ?thesis by simp
    qed
  qed
qed

lemma read_reg_config_polling:
  "\<exists>ev. log (snd (kp_spi_read_reg e cs KP_SPI_REG_CONFIG h)) = log h @ [ev] \<and> polling ev"
  by (simp add: kp_spi_read_reg_def)

lemma of_nat_eq_len:
  fixes l :: u32
  assumes "k \<le> unat l"
  shows "of_nat k = l \<longleftrightarrow> k = unat l"
proof
  assume "of_nat k = l"
  then have "unat (of_nat k :: u32) = unat l" by simp
  then show "k = unat l" by (simp only: le_unat_uoi [OF assms])
qed simp

text \<open>One transfer of the second loop.\<close>

lemma one_transfer_trace:
  assumes "kp_spi_one_transfer e spidev cs t al h = Some (st, t1, al1, cs1, h1)" "has_buf t \<or> len t = 0"
  shows "\<exists>k evs. k \<le> unat (len t) \<and> al1 = al + of_nat k \<and> log h1 = log h @ evs
           \<and> (st = 0 \<or> st = - EIO)
           \<and> (if list_ex unit_timeout evs
               then st = - EIO \<and> k < unat (len t)
                    \<and> (\<exists>pre w. sig evs = pre @ [w] \<and> unit_timeout w \<and> \<not> list_ex unit_timeout pre)
               else st = 0 \<and> k = unat (len t))"
proof (cases "len t = 0")
  case True
  with assms have "st = 0" "al1 = al" "h1 = h" by (simp_all add: kp_spi_one_transfer_def)
  with True show ?thesis by (intro exI [of _ 0] exI [of _ "[]"]) simp
next
  case False
  with assms(2) have hb: "has_buf t" by simp
  let ?r = "kp_spi_read_reg e cs KP_SPI_REG_CONFIG h"
  let ?c = "kp_spi_transfer_config spidev t (ucast (fst ?r))"
  let ?w = "kp_spi_write_reg (cs\<lparr>word_len := fst ?c\<rparr>) KP_SPI_REG_CONFIG (ucast (snd ?c)) (snd ?r)"
  from assms(1) False obtain count where
    x: "kp_spi_txrx_pio e (fst ?w) t (snd ?w) = Some (count, t1, cs1, h1)" and
    st: "st = (if count \<noteq> len t then - EIO else 0)" and al: "al1 = al + count"
    by (auto simp: kp_spi_one_transfer_def Let_def split: option.splits)
  from txrx_pio_trace [OF x] obtain k evs where
    k: "k \<le> unat (len t)" "count = of_nat k" "log h1 = log (snd ?w) @ evs" "txrx_trace t k evs t1"
    by blast
  obtain rd where rd: "log (snd ?r) = log h @ [rd]" "polling rd"
    using read_reg_config_polling by blast
  let ?evs = "rd # Writeq KP_SPI_REG_CONFIG (ucast (snd ?c)) # evs"
  have l: "log h1 = log h @ ?evs" using k(3) rd by simp
  have ce: "count \<noteq> len t \<longleftrightarrow> k \<noteq> unat (len t)"
    using of_nat_eq_len [OF k(1)] k(2) by simp
  note u = txrx_trace_units [OF k(4) hb]
  have ex: "list_ex unit_timeout ?evs = list_ex unit_timeout evs"
    using rd by (auto dest: unit_timeout_not_polling)
  show ?thesis
  proof (cases "k = unat (len t)")
    case True
    with u have "\<not> list_ex unit_timeout evs" by simp
    with True st ce al k l ex show ?thesis
      by (intro exI [of _ k] exI [of _ ?evs]) simp
  next
    case ne: False
    with u obtain pre w where
      p: "sig evs = pre @ [w]" "unit_timeout w" "\<not> list_ex unit_timeout pre" by auto
    then have "list_ex unit_timeout (sig evs)" by simp
    then have le: "list_ex unit_timeout evs" by simp
    have "sig ?evs = (Writeq KP_SPI_REG_CONFIG (ucast (snd ?c)) # pre) @ [w]"
      using rd p by simp
    moreover have "\<not> list_ex unit_timeout (Writeq KP_SPI_REG_CONFIG (ucast (snd ?c)) # pre)"
      using p by simp
    ultimately have "\<exists>pre w. sig ?evs = pre @ [w] \<and> unit_timeout w \<and> \<not> list_ex unit_timeout pre"
      using p(2) by blast
    with ne st ce al k l ex le show ?thesis
      by (intro exI [of _ k] exI [of _ ?evs]) simp
  qed
qed

lemma do_transfers_trace:
  assumes "kp_spi_do_transfers e spidev cs ts al h = Some (st, ts', al', cs', h')"
      and "\<forall>t \<in> set ts. has_buf t \<or> len t = 0"
  shows "length ts' = length ts \<and>
         (\<exists>n evs. al' = al + of_nat n \<and> log h' = log h @ evs
            \<and> (if list_ex unit_timeout evs
                then st = - EIO \<and> n < total_len ts
                     \<and> (\<exists>pre w. sig evs = pre @ [w] \<and> unit_timeout w \<and> \<not> list_ex unit_timeout pre)
                else st = 0 \<and> n = total_len ts))"
  using assms
proof (induction ts arbitrary: cs al h st ts' al' cs' h')
  case Nil
  then have "st = 0" "ts' = []" "al' = al" "h' = h" by simp_all
  then show ?case by (intro conjI exI [of _ 0] exI [of _ "[]"]) (simp_all add: total_len_def)
next
  case (Cons t ts)
  from Cons.prems(2) have hb: "has_buf t \<or> len t = 0" and rest: "\<forall>t \<in> set ts. has_buf t \<or> len t = 0"
    by simp_all
  from hb have ne: "\<not> (tx_buf t = None \<and> rx_buf t = None \<and> len t \<noteq> 0)"
    by (auto simp: has_buf_def)
  obtain st1 t1 al1 cs1 h1 where
    o: "kp_spi_one_transfer e spidev cs t al h = Some (st1, t1, al1, cs1, h1)"
  proof (cases "kp_spi_one_transfer e spidev cs t al h")
    case None
    with Cons.prems(1) ne show ?thesis by simp
  next
    case (Some y)
    with that show ?thesis by (cases y) auto
  qed
  from one_transfer_trace [OF o hb] obtain k evs1 where
    k: "k \<le> unat (len t)" "al1 = al + of_nat k" "log h1 = log h @ evs1" and
    u: "if list_ex unit_timeout evs1
        then st1 = - EIO \<and> k < unat (len t)
             \<and> (\<exists>pre w. sig evs1 = pre @ [w] \<and> unit_timeout w \<and> \<not> list_ex unit_timeout pre)
        else st1 = 0 \<and> k = unat (len t)"
    by blast
  show ?case
  proof (cases "st1 = 0")
    case False
    with Cons.prems(1) ne o have r: "st = st1" "ts' = t1 # ts" "al' = al1" "h' = h1" by simp_all
    from False u have ex: "list_ex unit_timeout evs1"
      by (cases "list_ex unit_timeout evs1") simp_all
    with u have "st1 = - EIO" "k < unat (len t)"
      "\<exists>pre w. sig evs1 = pre @ [w] \<and> unit_timeout w \<and> \<not> list_ex unit_timeout pre" by simp_all
    with r k ex show ?thesis
      by (intro conjI exI [of _ k] exI [of _ evs1]) (simp_all add: total_len_def)
  next
    case True
    let ?d = "if delay_usecs t \<noteq> 0 then [Udelay (delay_usecs t)] else []"
    let ?h = "if delay_usecs t \<noteq> 0 then h1\<lparr>log := log h1 @ [Udelay (delay_usecs t)]\<rparr> else h1"
    from True u have nex: "\<not> list_ex unit_timeout evs1" and kk: "k = unat (len t)"
      by (cases "list_ex unit_timeout evs1"; simp)+
    obtain st2 ts1 al2 cs2 h2 where
      rec: "kp_spi_do_transfers e spidev cs1 ts al1 ?h = Some (st2, ts1, al2, cs2, h2)"
    proof (cases "kp_spi_do_transfers e spidev cs1 ts al1 ?h")
      case None
      with Cons.prems(1) ne o True show ?thesis by simp
    next
      case (Some y)
      with that show ?thesis by (cases y) auto
    qed
    with Cons.prems(1) ne o True
    have r: "st = st2" "ts' = t1 # ts1" "al' = al2" "h' = h2" by simp_all
    from Cons.IH [OF rec rest] obtain n evs2 where
      n: "length ts1 = length ts" "al2 = al1 + of_nat n" "log h2 = log ?h @ evs2" and
      u2: "if list_ex unit_timeout evs2
           then st2 = - EIO \<and> n < total_len ts
                \<and> (\<exists>pre w. sig evs2 = pre @ [w] \<and> unit_timeout w \<and> \<not> list_ex unit_timeout pre)
           else st2 = 0 \<and> n = total_len ts"
      by blast
    let ?evs = "evs1 @ ?d @ evs2"
    have l: "log h' = log h @ ?evs" using r n(3) k(3) by simp
    have a: "al' = al + of_nat (k + n)" using r n(2) k(2) by simp
    have ex: "list_ex unit_timeout ?evs = list_ex unit_timeout evs2" using nex by simp
    have t: "total_len (t # ts) = k + total_len ts" using kk by (simp add: total_len_def)
    show ?thesis
    proof (cases "list_ex unit_timeout evs2")
      case False
      with u2 have "st2 = 0" "n = total_len ts" by simp_all
      with r n(1) l a ex t False show ?thesis
        by (intro conjI exI [of _ "k + n"] exI [of _ ?evs]) simp_all
    next
      case e2: True
      with u2 obtain pre w where
        p: "st2 = - EIO" "n < total_len ts" "sig evs2 = pre @ [w]" "unit_timeout w"
           "\<not> list_ex unit_timeout pre" by auto
      have "sig ?evs = (sig evs1 @ sig ?d @ pre) @ [w]" using p(3) by simp
      moreover have "\<not> list_ex unit_timeout (sig evs1 @ sig ?d @ pre)"
        using nex p(5) by simp
      ultimately have "\<exists>pre w. sig ?evs = pre @ [w] \<and> unit_timeout w \<and> \<not> list_ex unit_timeout pre"
        using p(4) by blast
      with r n(1) l a ex t e2 p(1,2) show ?thesis
        by (intro conjI exI [of _ "k + n"] exI [of _ ?evs]) simp_all
    qed
  qed
qed

lemma one_transfer_total:
  assumes "clock_progress e"
  shows "kp_spi_one_transfer e spidev cs t al h \<noteq> None"
proof (cases "len t = 0")
  case True
  then show ?thesis by (simp add: kp_spi_one_transfer_def)
next
  case False
  let ?r = "kp_spi_read_reg e cs KP_SPI_REG_CONFIG h"
  let ?c = "kp_spi_transfer_config spidev t (ucast (fst ?r))"
  let ?w = "kp_spi_write_reg (cs\<lparr>word_len := fst ?c\<rparr>) KP_SPI_REG_CONFIG (ucast (snd ?c)) (snd ?r)"
  obtain y where "kp_spi_txrx_pio e (fst ?w) t (snd ?w) = Some y"
    using txrx_pio_total [OF assms, of "fst ?w" t "snd ?w"] by auto
  with False show ?thesis
    by (cases y) (simp add: kp_spi_one_transfer_def Let_def)
qed

lemma do_transfers_total:
  assumes "clock_progress e"
  shows "kp_spi_do_transfers e spidev cs ts al h \<noteq> None"
proof (induction ts arbitrary: cs al h)
  case Nil
  show ?case by simp
next
  case (Cons t ts)
  obtain st1 t1 al1 cs1 h1 where
    o: "kp_spi_one_transfer e spidev cs t al h = Some (st1, t1, al1, cs1, h1)"
    using one_transfer_total [OF assms, of spidev cs t al h]
    by (cases "kp_spi_one_transfer e spidev cs t al h") auto
  let ?h = "if delay_usecs t \<noteq> 0 then h1\<lparr>log := log h1 @ [Udelay (delay_usecs t)]\<rparr> else h1"
  obtain y where "kp_spi_do_transfers e spidev cs1 ts al1 ?h = Some y"
    using Cons.IH [of cs1 al1 ?h] by auto
  with o show ?case by (cases y) simp
qed

lemma validate_has_buf:
  "kp_spi_validate ts \<Longrightarrow> \<forall>t \<in> set ts. has_buf t \<or> len t = 0"
  by (auto simp: validate_iff invalid_transfer_def has_buf_def)

lemma get_spi_en_set [simp]: "get_spi_en (set_spi_en v reg) = v AND 1"
  by (simp add: get_spi_en_def set_spi_en_def get_set_same)

lemma of_nat_total_len: "(of_nat (total_len ts) :: u32) = sum_list (map len ts)"
  by (induction ts) (simp_all add: total_len_def)

text \<open>What a message that passed validation leaves behind when the sequencer returns.\<close>

lemma message_trace:
  assumes "transfers m \<noteq> []" "kp_spi_validate (transfers m)" "controller_state spidev = Some cs"
      and run: "kp_spi_transfer_one_message e spidev m h = Some (r, m', spidev', h')"
  shows "r = Returns 0 \<and> status m' = 0 \<and>
         (\<exists>evs. log h' = log h @ evs \<and> (\<exists>pre. evs = pre @ [Finalize])
            \<and> message_events m m' evs)"
proof -
  let ?m0 = "m\<lparr>actual_length := 0, status := 0\<rparr>"
  let ?r = "kp_spi_read_reg e cs KP_SPI_REG_CONFIG h"
  let ?v1 = "set_spi_en 1 (ucast (fst ?r))"
  let ?w = "kp_spi_write_reg cs KP_SPI_REG_CONFIG (ucast ?v1) (snd ?r)"
  obtain rd where rd: "log (snd ?r) = log h @ [rd]" "polling rd"
    using read_reg_config_polling by blast
  have lw: "log (snd ?w) = log h @ [rd, Writeq KP_SPI_REG_CONFIG (ucast ?v1)]"
    using rd by simp
  have en: "get_spi_en ?v1 = 1" by simp
  obtain t h1 where
    w: "kp_spi_wait_for_reg_bit e (fst ?w) KP_SPI_REG_STATUS KP_SPI_REG_STATUS_EOT (snd ?w)
          = Some (t, h1)"
  proof (cases "kp_spi_wait_for_reg_bit e (fst ?w) KP_SPI_REG_STATUS KP_SPI_REG_STATUS_EOT (snd ?w)")
    case None
    with run assms(1-3) show ?thesis
      by (simp add: kp_spi_transfer_one_message_def Let_def)
  next
    case (Some y)
    with that show ?thesis by (cases y) auto
  qed
  from wait_status [OF w] obtain evs0 where
    t: "t = 0 \<or> t = - ETIMEDOUT" and l0: "log h1 = log (snd ?w) @ evs0" and
    s0: "sig evs0 = (if t = 0 then [] else [WaitTimeout KP_SPI_REG_STATUS KP_SPI_REG_STATUS_EOT])"
    by blast
  show ?thesis
  proof (cases "t < 0")
    case True
    with run assms(1-3) w have
      res: "r = Returns 0" "m' = ?m0" "h' = h1\<lparr>log := log h1 @ [DevInfo, Finalize]\<rparr>"
      by (simp_all add: kp_spi_transfer_one_message_def Let_def)
    from True have tn: "t \<noteq> 0" by simp
    let ?evs = "rd # Writeq KP_SPI_REG_CONFIG (ucast ?v1) # evs0 @ [DevInfo, Finalize]"
    have "log h' = log h @ ?evs" using res l0 lw by simp
    moreover have "sig ?evs = [Writeq KP_SPI_REG_CONFIG (ucast ?v1),
                        WaitTimeout KP_SPI_REG_STATUS KP_SPI_REG_STATUS_EOT, DevInfo, Finalize]"
      using rd s0 tn by simp
    moreover have "\<exists>pre. ?evs = pre @ [Finalize]"
      by (rule exI [of _ "rd # Writeq KP_SPI_REG_CONFIG (ucast ?v1) # evs0 @ [DevInfo]"]) simp
    ultimately show ?thesis using res en
      apply (intro conjI)
        apply simp
       apply simp
      apply (rule exI [of _ ?evs])
      apply (intro conjI)
        apply assumption
       apply assumption
      apply (unfold message_events_def)
      apply (rule exI [of _ ?v1])
      apply (intro conjI)
       apply (rule en)
      apply (rule disjI1)
      apply simp
      done
  next
    case False
    with t have t0: "t = 0" by auto
    obtain st ts1 al cs1 h2 where
      d: "kp_spi_do_transfers e spidev (fst ?w) (transfers m) 0 h1 = Some (st, ts1, al, cs1, h2)"
    proof (cases "kp_spi_do_transfers e spidev (fst ?w) (transfers m) 0 h1")
      case None
      with run assms(1-3) w False show ?thesis
        by (simp add: kp_spi_transfer_one_message_def Let_def)
    next
      case (Some y)
      with that show ?thesis by (cases y) auto
    qed
    let ?r1 = "kp_spi_read_reg e cs1 KP_SPI_REG_CONFIG h2"
    let ?v2 = "set_spi_en 0 (ucast (fst ?r1))"
    let ?w1 = "kp_spi_write_reg cs1 KP_SPI_REG_CONFIG (ucast ?v2) (snd ?r1)"
    from run assms(1-3) w False d have
      res: "r = Returns 0" "m' = ?m0\<lparr>transfers := ts1, actual_length := al\<rparr>"
           "h' = (snd ?w1)\<lparr>log := log (snd ?w1) @ [Finalize]\<rparr>"
      by (simp_all add: kp_spi_transfer_one_message_def Let_def)
    obtain rd1 where rd1: "log (snd ?r1) = log h2 @ [rd1]" "polling rd1"
      using read_reg_config_polling by blast
    from do_transfers_trace [OF d validate_has_buf [OF assms(2)]] obtain n evs1 where
      n: "al = of_nat n" "log h2 = log h1 @ evs1" and
      u: "if list_ex unit_timeout evs1
          then st = - EIO \<and> n < total_len (transfers m)
               \<and> (\<exists>pre w. sig evs1 = pre @ [w] \<and> unit_timeout w \<and> \<not> list_ex unit_timeout pre)
          else st = 0 \<and> n = total_len (transfers m)"
      by auto
    let ?evs = "rd # Writeq KP_SPI_REG_CONFIG (ucast ?v1) # evs0 @ evs1
                  @ [rd1, Writeq KP_SPI_REG_CONFIG (ucast ?v2), Finalize]"
    have l: "log h' = log h @ ?evs" using res n(2) l0 lw rd1 by simp
    have s: "sig ?evs = Writeq KP_SPI_REG_CONFIG (ucast ?v1) # sig evs1
                               @ [Writeq KP_SPI_REG_CONFIG (ucast ?v2), Finalize]"
      using rd rd1 s0 t0 by simp
    have b: "if list_ex unit_timeout (sig evs1)
             then n < total_len (transfers m)
                  \<and> (\<exists>pre w. sig evs1 = pre @ [w] \<and> unit_timeout w \<and> \<not> list_ex unit_timeout pre)
             else n = total_len (transfers m)"
      using u by (cases "list_ex unit_timeout evs1") simp_all
    have D2: "\<exists>body v2 n.
                   sig ?evs = Writeq KP_SPI_REG_CONFIG (ucast ?v1) # body
                               @ [Writeq KP_SPI_REG_CONFIG (ucast v2), Finalize]
                   \<and> get_spi_en v2 = 0 \<and> actual_length m' = of_nat n
                   \<and> (if list_ex unit_timeout body
                       then n < total_len (transfers m)
                            \<and> (\<exists>pre w. body = pre @ [w] \<and> unit_timeout w
                                  \<and> \<not> list_ex unit_timeout pre)
                       else n = total_len (transfers m))"
      apply (rule exI [of _ "sig evs1"], rule exI [of _ ?v2], rule exI [of _ n])
      apply (intro conjI)
         apply (rule s)
        apply simp
       apply (simp add: res(2) n(1))
      apply (rule b)
      done
    have fin: "\<exists>pre. ?evs = pre @ [Finalize]"
      by (rule exI [of _ "rd # Writeq KP_SPI_REG_CONFIG (ucast ?v1) # evs0 @ evs1
                  @ [rd1, Writeq KP_SPI_REG_CONFIG (ucast ?v2)]"]) simp
    show ?thesis
      apply (intro conjI)
        apply (rule res(1))
       apply (simp add: res(2))
      apply (rule exI [of _ ?evs])
      apply (intro conjI)
        apply (rule l)
       apply (rule fin)
      apply (unfold message_events_def)
      apply (rule exI [of _ ?v1])
      apply (intro conjI)
       apply (rule en)
      apply (rule disjI2)
      apply (rule D2)
      done
  qed
qed

lemma message_total:
  assumes "clock_progress e"
  shows "kp_spi_transfer_one_message e spidev m h \<noteq> None"
proof (cases "transfers m \<noteq> [] \<and> kp_spi_validate (transfers m) \<and> controller_state spidev \<noteq> None")
  case False
  then show ?thesis
    by (auto simp: kp_spi_transfer_one_message_def Let_def)
next
  case True
  then obtain cs where cs: "controller_state spidev = Some cs" by auto
  let ?m0 = "m\<lparr>actual_length := 0, status := 0\<rparr>"
  let ?r = "kp_spi_read_reg e cs KP_SPI_REG_CONFIG h"
  let ?v1 = "set_spi_en 1 (ucast (fst ?r))"
  let ?w = "kp_spi_write_reg cs KP_SPI_REG_CONFIG (ucast ?v1) (snd ?r)"
  obtain t h1 where
    w: "kp_spi_wait_for_reg_bit e (fst ?w) KP_SPI_REG_STATUS KP_SPI_REG_STATUS_EOT (snd ?w)
          = Some (t, h1)"
    using wait_total [OF assms] by blast
  obtain y where d: "kp_spi_do_transfers e spidev (fst ?w) (transfers m) 0 h1 = Some y"
    using do_transfers_total [OF assms, of spidev "fst ?w" "transfers m" 0 h1] by auto
  from True cs w d show ?thesis
    by (cases y) (simp add: kp_spi_transfer_one_message_def Let_def)
qed

lemma clock_progress_2000:
  assumes "jiffies_val e = (\<lambda>k. of_nat k * 2000)" "msecs_to_jiffies_1000 e = 1000"
  shows "clock_progress e"
  unfolding clock_progress_def
proof (intro allI)
  fix k
  have "time_after (jiffies_val e (Suc k)) (jiffies_val e k + msecs_to_jiffies_1000 e)"
    by (simp add: assms time_after_def algebra_simps)
  then show "\<exists>j>k. time_after (jiffies_val e j) (jiffies_val e k + msecs_to_jiffies_1000 e)"
    by blast
qed

lemma unit_timeout_sig_body:
  assumes "sig evs = a # body @ [b, c]" "\<not> unit_timeout a" "\<not> unit_timeout b" "\<not> unit_timeout c"
  shows "list_ex unit_timeout body = list_ex unit_timeout evs"
proof -
  have "list_ex unit_timeout evs = list_ex unit_timeout (sig evs)" by simp
  also have "\<dots> = list_ex unit_timeout body" using assms by simp
  finally show ?thesis by simp
qed

subsection \<open>Runs on the concrete inputs\<close>

lemmas run_defs =
  kp_spi_transfer_one_message_def kp_spi_one_transfer_def kp_spi_txrx_pio_def
  kp_spi_tx_loop.simps kp_spi_rx_loop.simps kp_spi_wait_for_reg_bit_def wait_loop.simps
  kp_spi_read_reg_def kp_spi_write_reg_def read_jiffies_def time_after_def
  kp_spi_transfer_config_def char_to_u64_def
  set_wl_def set_trm_def set_cs_def set_ffen_def set_spi_en_def set_field_def
  mask_eq_exp_minus_1 Let_def

lemma valid_msg_ok:
  "transfers msg_ok \<noteq> []" "kp_spi_validate (transfers msg_ok)" "controller_state dev0 = Some cs0"
  by (simp_all add: msg_ok_def xfer_tx4_def xfer_rx3_def dev0_def)

lemma ready_log:
  "result_log (kp_spi_transfer_one_message env_ready dev0 msg_ok hw0) =
     [CacheHit 0x4070, Writeq KP_SPI_REG_CONFIG 0x4004070, Jiffies 0, Readq KP_SPI_REG_STATUS 7,
      CacheHit 0x4004070, Writeq KP_SPI_REG_CONFIG 0x4006070,
      Jiffies 2000, Readq KP_SPI_REG_STATUS 7, Writeq KP_SPI_REG_TXDATA 1,
      Jiffies 4000, Readq KP_SPI_REG_STATUS 7, Writeq KP_SPI_REG_TXDATA 2,
      Jiffies 6000, Readq KP_SPI_REG_STATUS 7, Writeq KP_SPI_REG_TXDATA 3,
      Jiffies 8000, Readq KP_SPI_REG_STATUS 7, Writeq KP_SPI_REG_TXDATA 4,
      Jiffies 10000, Readq KP_SPI_REG_STATUS 7,
      CacheHit 0x4006070, Writeq KP_SPI_REG_CONFIG 0x40050F0,
      Writeq KP_SPI_REG_TXDATA 0, Jiffies 12000, Readq KP_SPI_REG_STATUS 7,
      Readq KP_SPI_REG_RXDATA 0xB0,
      Writeq KP_SPI_REG_TXDATA 0, Jiffies 14000, Readq KP_SPI_REG_STATUS 7,
      Readq KP_SPI_REG_RXDATA 0xB2,
      Writeq KP_SPI_REG_TXDATA 0, Jiffies 16000, Readq KP_SPI_REG_STATUS 7,
      Readq KP_SPI_REG_RXDATA 0xB4,
      Jiffies 18000, Readq KP_SPI_REG_STATUS 7, Udelay 5,
      CacheHit 0x40050F0, Writeq KP_SPI_REG_CONFIG 0x50F0, Finalize]"
  by (simp add: result_log_def run_defs env_ready_def dev0_def cs0_def msg_ok_def xfer_tx4_def
      xfer_rx3_def hw0_def)

lemma stall_log:
  "result_log (kp_spi_transfer_one_message env_stall dev0 msg_ok hw0) =
     [CacheHit 0x4070, Writeq KP_SPI_REG_CONFIG 0x4004070, Jiffies 0, Readq KP_SPI_REG_STATUS 6,
      CacheHit 0x4004070, Writeq KP_SPI_REG_CONFIG 0x4006070,
      Jiffies 2000, Readq KP_SPI_REG_STATUS 6, Writeq KP_SPI_REG_TXDATA 1,
      Jiffies 4000, Readq KP_SPI_REG_STATUS 6, Writeq KP_SPI_REG_TXDATA 2,
      Jiffies 6000, Readq KP_SPI_REG_STATUS 4, Jiffies 8000, Readq KP_SPI_REG_STATUS 4,
      WaitTimeout KP_SPI_REG_STATUS KP_SPI_REG_STATUS_TXS,
      CacheHit 0x4006070, Writeq KP_SPI_REG_CONFIG 0x6070, Finalize]"
  by (simp add: result_log_def run_defs env_stall_def dev0_def cs0_def msg_ok_def xfer_tx4_def
      xfer_rx3_def hw0_def)

subsection \<open>The cached Config register\<close>

lemma session_state_populated:
  assumes "session_state cs"
  shows "0 \<le> sint (conf_cache cs)"
  using assms
proof (induction rule: session_state.induct)
  case (after_setup alloc_ok sc0 spidev h spidev' h' cs)
  from setup_populates_cache [OF after_setup(1)] after_setup(2) show ?case by auto
next
  case (after_message cs spidev e m h r m' spidev' h' cs')
  from message_keeps_cache [OF after_message(3,2,5)] after_message(4) show ?case by auto
qed

lemma setup_new:
  "kp_spi_setup True 8 dev_new hw0
     = (0, dev_new\<lparr>controller_state := Some (cs_unset\<lparr>conf_cache := 0x4078\<rparr>)\<rparr>,
        \<lparr>n_readq = 0, n_jiffies = 0, log = [Writeq KP_SPI_REG_CONFIG 0x4078]\<rparr>)"
  by (simp add: kp_spi_setup_def kp_spi_setup_state_def dev_new_def cs_unset_def hw0_def
        kp_spi_write_reg_def Let_def field_defs set_field_def mask_eq_exp_minus_1)

lemma message_after_setup:
  "map_option (\<lambda>(r, m', d', h'). (r, controller_state d'))
     (kp_spi_transfer_one_message env_ready
        (dev_new\<lparr>controller_state := Some (cs_unset\<lparr>conf_cache := 0x4078\<rparr>)\<rparr>) msg_ok hw0)
     = Some (Returns 0, Some \<lparr>cs_chip_select = 1, word_len = 16, conf_cache = 0x50F8\<rparr>)"
  by (simp add: run_defs env_ready_def dev_new_def cs_unset_def msg_ok_def xfer_tx4_def
      xfer_rx3_def hw0_def)

text \<open>
  C7. In every session state, reading the Config register twice in succession
  with no write in between returns the same value both times, and the second
  read does no bus access: the count of bus reads stays, and the log gets a read
  served from the cache.
\<close>

theorem config_read_twice:
  assumes "session_state cs"
  shows "fst (kp_spi_read_reg e cs KP_SPI_REG_CONFIG (snd (kp_spi_read_reg e cs KP_SPI_REG_CONFIG h)))
           = fst (kp_spi_read_reg e cs KP_SPI_REG_CONFIG h)
         \<and> n_readq (snd (kp_spi_read_reg e cs KP_SPI_REG_CONFIG
                            (snd (kp_spi_read_reg e cs KP_SPI_REG_CONFIG h))))
           = n_readq (snd (kp_spi_read_reg e cs KP_SPI_REG_CONFIG h))
         \<and> log (snd (kp_spi_read_reg e cs KP_SPI_REG_CONFIG
                            (snd (kp_spi_read_reg e cs KP_SPI_REG_CONFIG h))))
           = log (snd (kp_spi_read_reg e cs KP_SPI_REG_CONFIG h))
               @ [CacheHit (fst (kp_spi_read_reg e cs KP_SPI_REG_CONFIG h))]"
  using session_state_populated [OF assms] by (simp add: kp_spi_read_reg_def)

theorem config_read_twice_witness:
  "session_state (cs_unset\<lparr>conf_cache := 0x4078\<rparr>)
   \<and> kp_spi_read_reg env_count (cs_unset\<lparr>conf_cache := 0x4078\<rparr>) KP_SPI_REG_CONFIG hw0
       = (0x4078, \<lparr>n_readq = 0, n_jiffies = 0, log = [CacheHit 0x4078]\<rparr>)
   \<and> kp_spi_read_reg env_count (cs_unset\<lparr>conf_cache := 0x4078\<rparr>) KP_SPI_REG_CONFIG
        \<lparr>n_readq = 0, n_jiffies = 0, log = [CacheHit 0x4078]\<rparr>
       = (0x4078, \<lparr>n_readq = 0, n_jiffies = 0, log = [CacheHit 0x4078, CacheHit 0x4078]\<rparr>)
   \<and> session_state \<lparr>cs_chip_select = 1, word_len = 16, conf_cache = 0x50F8\<rparr>
   \<and> kp_spi_read_reg env_count \<lparr>cs_chip_select = 1, word_len = 16, conf_cache = 0x50F8\<rparr>
        KP_SPI_REG_CONFIG hw0
       = (0x50F8, \<lparr>n_readq = 0, n_jiffies = 0, log = [CacheHit 0x50F8]\<rparr>)
   \<and> kp_spi_read_reg env_count \<lparr>cs_chip_select = 1, word_len = 16, conf_cache = 0x50F8\<rparr>
        KP_SPI_REG_CONFIG \<lparr>n_readq = 0, n_jiffies = 0, log = [CacheHit 0x50F8]\<rparr>
       = (0x50F8, \<lparr>n_readq = 0, n_jiffies = 0, log = [CacheHit 0x50F8, CacheHit 0x50F8]\<rparr>)"
proof -
  let ?cs = "cs_unset\<lparr>conf_cache := 0x4078\<rparr>"
  let ?cs2 = "\<lparr>cs_chip_select = 1, word_len = 16, conf_cache = 0x50F8\<rparr>"
  have s: "session_state ?cs"
    by (rule after_setup [OF setup_new]) simp
  from message_after_setup obtain m' d' h' where
    "kp_spi_transfer_one_message env_ready (dev_new\<lparr>controller_state := Some ?cs\<rparr>) msg_ok hw0
       = Some (Returns 0, m', d', h')" "controller_state d' = Some ?cs2"
    by (auto simp: map_option_case split: option.splits)
  from after_message [OF s _ this] have s2: "session_state ?cs2" by simp
  note t = config_read_twice [OF s, of env_count hw0]
  note t2 = config_read_twice [OF s2, of env_count hw0]
  have 1: "kp_spi_read_reg env_count ?cs KP_SPI_REG_CONFIG hw0
       = (0x4078, \<lparr>n_readq = 0, n_jiffies = 0, log = [CacheHit 0x4078]\<rparr>)"
    by (simp add: kp_spi_read_reg_def cs_unset_def hw0_def)
  from t have 2: "kp_spi_read_reg env_count ?cs KP_SPI_REG_CONFIG
        \<lparr>n_readq = 0, n_jiffies = 0, log = [CacheHit 0x4078]\<rparr>
       = (0x4078, \<lparr>n_readq = 0, n_jiffies = 0, log = [CacheHit 0x4078, CacheHit 0x4078]\<rparr>)"
    unfolding 1 by (simp add: prod_eq_iff hw.equality)
  have 3: "kp_spi_read_reg env_count ?cs2 KP_SPI_REG_CONFIG hw0
       = (0x50F8, \<lparr>n_readq = 0, n_jiffies = 0, log = [CacheHit 0x50F8]\<rparr>)"
    by (simp add: kp_spi_read_reg_def hw0_def)
  from t2 have 4: "kp_spi_read_reg env_count ?cs2 KP_SPI_REG_CONFIG
        \<lparr>n_readq = 0, n_jiffies = 0, log = [CacheHit 0x50F8]\<rparr>
       = (0x50F8, \<lparr>n_readq = 0, n_jiffies = 0, log = [CacheHit 0x50F8, CacheHit 0x50F8]\<rparr>)"
    unfolding 3 by (simp add: prod_eq_iff hw.equality)
  from s 1 2 s2 3 4 show ?thesis by blast
qed

subsection \<open>Chip select\<close>

text \<open>
  C1 fails on the code. \<open>msg_ok\<close> passes validation; with \<open>env_stuck\<close> the up-front
  end-of-transfer wait times out, and \<^verbatim>\<open>goto out\<close> jumps over the de-assertion to
  the finalisation. The whole log of the run: Config is written once, with
  SPI-enable set (bit 26 of \<open>0x4004070\<close>), and never with SPI-enable cleared.
\<close>

theorem upfront_timeout_keeps_chip_select:
  "result_log (kp_spi_transfer_one_message env_stuck dev0 msg_ok hw0) =
     [CacheHit 0x4070, Writeq KP_SPI_REG_CONFIG 0x4004070,
      Jiffies 0, Readq KP_SPI_REG_STATUS 0, Jiffies 2000, Readq KP_SPI_REG_STATUS 0,
      WaitTimeout KP_SPI_REG_STATUS KP_SPI_REG_STATUS_EOT, DevInfo, Finalize]
   \<and> get_spi_en 0x4004070 = 1
   \<and> kp_spi_validate (transfers msg_ok)"
  by (simp add: result_log_def run_defs env_stuck_def dev0_def cs0_def msg_ok_def xfer_tx4_def
      xfer_rx3_def hw0_def get_spi_en_def get_field_def)

subsection \<open>The length moved\<close>

text \<open>
  C3. For a message that passed validation, on a device that is set up, the
  sequencer returns when the clock goes on; and when its log since the call shows
  no timeout of any wait, it has returned 0, finalisation is the last thing it
  did, and \<^verbatim>\<open>actual_length\<close> is the sum of the lengths of the transfers (in the
  \<^verbatim>\<open>unsigned\<close> of the fields).
\<close>

theorem actual_length_is_sum:
  assumes "transfers m \<noteq> []" "kp_spi_validate (transfers m)" "controller_state spidev = Some cs"
  shows "(clock_progress e \<longrightarrow> kp_spi_transfer_one_message e spidev m h \<noteq> None) \<and>
         (\<forall>r m' spidev' h' evs.
            kp_spi_transfer_one_message e spidev m h = Some (r, m', spidev', h')
            \<and> log h' = log h @ evs \<and> \<not> list_ex is_timeout evs
            \<longrightarrow> r = Returns 0 \<and> actual_length m' = sum_list (map len (transfers m))
                \<and> (\<exists>pre. evs = pre @ [Finalize]))"
proof (intro conjI allI impI)
  assume "clock_progress e"
  then show "kp_spi_transfer_one_message e spidev m h \<noteq> None" by (rule message_total)
next
  fix r m' spidev' h' evs
  assume a: "kp_spi_transfer_one_message e spidev m h = Some (r, m', spidev', h')
            \<and> log h' = log h @ evs \<and> \<not> list_ex is_timeout evs"
  then have run: "kp_spi_transfer_one_message e spidev m h = Some (r, m', spidev', h')"
    and l: "log h' = log h @ evs" and nt: "\<not> list_ex is_timeout evs" by simp_all
  from message_trace [OF assms run] obtain evs' where
    r: "r = Returns 0" and l': "log h' = log h @ evs'" and fin': "\<exists>pre. evs' = pre @ [Finalize]"
    and me': "message_events m m' evs'"
    by blast
  from l l' have ee: "evs' = evs" by simp
  note fin = fin' [unfolded ee]
  from me' [unfolded ee message_events_def] obtain v1 where
    "get_spi_en v1 = 1 \<and>
       (sig evs = [Writeq KP_SPI_REG_CONFIG (ucast v1),
                        WaitTimeout KP_SPI_REG_STATUS KP_SPI_REG_STATUS_EOT, DevInfo, Finalize]
               \<and> m' = m\<lparr>actual_length := 0, status := 0\<rparr>
             \<or> (\<exists>body v2 n.
                   sig evs = Writeq KP_SPI_REG_CONFIG (ucast v1) # body
                               @ [Writeq KP_SPI_REG_CONFIG (ucast v2), Finalize]
                   \<and> get_spi_en v2 = 0 \<and> actual_length m' = of_nat n
                   \<and> (if list_ex unit_timeout body
                       then n < total_len (transfers m)
                            \<and> (\<exists>pre w. body = pre @ [w] \<and> unit_timeout w
                                  \<and> \<not> list_ex unit_timeout pre)
                       else n = total_len (transfers m))))" ..
  then have
    d: "sig evs = [Writeq KP_SPI_REG_CONFIG (ucast v1),
                        WaitTimeout KP_SPI_REG_STATUS KP_SPI_REG_STATUS_EOT, DevInfo, Finalize]
               \<and> m' = m\<lparr>actual_length := 0, status := 0\<rparr>
             \<or> (\<exists>body v2 n.
                   sig evs = Writeq KP_SPI_REG_CONFIG (ucast v1) # body
                               @ [Writeq KP_SPI_REG_CONFIG (ucast v2), Finalize]
                   \<and> get_spi_en v2 = 0 \<and> actual_length m' = of_nat n
                   \<and> (if list_ex unit_timeout body
                       then n < total_len (transfers m)
                            \<and> (\<exists>pre w. body = pre @ [w] \<and> unit_timeout w
                                  \<and> \<not> list_ex unit_timeout pre)
                       else n = total_len (transfers m)))"
    by (rule conjunct2)
  have nu: "\<not> list_ex unit_timeout evs" using nt unit_timeout_is_timeout by blast
  from d have "actual_length m' = sum_list (map len (transfers m))"
  proof
    assume "sig evs = [Writeq KP_SPI_REG_CONFIG (ucast v1),
                        WaitTimeout KP_SPI_REG_STATUS KP_SPI_REG_STATUS_EOT, DevInfo, Finalize]
               \<and> m' = m\<lparr>actual_length := 0, status := 0\<rparr>"
    then have "list_ex is_timeout (sig evs)" by simp
    then have "list_ex is_timeout evs" by (rule list_ex_sig)
    with nt show ?thesis by simp
  next
    assume "\<exists>body v2 n.
                   sig evs = Writeq KP_SPI_REG_CONFIG (ucast v1) # body
                               @ [Writeq KP_SPI_REG_CONFIG (ucast v2), Finalize]
                   \<and> get_spi_en v2 = 0 \<and> actual_length m' = of_nat n
                   \<and> (if list_ex unit_timeout body
                       then n < total_len (transfers m)
                            \<and> (\<exists>pre w. body = pre @ [w] \<and> unit_timeout w
                                  \<and> \<not> list_ex unit_timeout pre)
                       else n = total_len (transfers m))"
    then obtain body v2 n where
      s: "sig evs = Writeq KP_SPI_REG_CONFIG (ucast v1) # body
                               @ [Writeq KP_SPI_REG_CONFIG (ucast v2), Finalize]" and
      "get_spi_en v2 = 0" and
      al: "actual_length m' = of_nat n" and
      i: "if list_ex unit_timeout body
                       then n < total_len (transfers m)
                            \<and> (\<exists>pre w. body = pre @ [w] \<and> unit_timeout w
                                  \<and> \<not> list_ex unit_timeout pre)
                       else n = total_len (transfers m)"
      by (elim exE conjE) (rule that)
    have "list_ex unit_timeout body = list_ex unit_timeout evs"
      by (rule unit_timeout_sig_body [OF s]) simp_all
    with nu i have "n = total_len (transfers m)" by simp
    with al show ?thesis by (simp add: of_nat_total_len)
  qed
  with r fin show "r = Returns 0" and "actual_length m' = sum_list (map len (transfers m))"
    and "\<exists>pre. evs = pre @ [Finalize]" by simp_all
qed

theorem actual_length_is_sum_witness:
  "transfers msg_ok \<noteq> [] \<and> kp_spi_validate (transfers msg_ok) \<and> controller_state dev0 = Some cs0
   \<and> clock_progress env_ready
   \<and> \<not> list_ex is_timeout (result_log (kp_spi_transfer_one_message env_ready dev0 msg_ok hw0))
   \<and> result_length (kp_spi_transfer_one_message env_ready dev0 msg_ok hw0) = Some 7"
proof -
  let ?R = "kp_spi_transfer_one_message env_ready dev0 msg_ok hw0"
  have cp: "clock_progress env_ready"
    by (rule clock_progress_2000) (simp_all add: env_ready_def)
  note t = actual_length_is_sum [OF valid_msg_ok, of env_ready hw0]
  from t [THEN conjunct1, rule_format, OF cp] have "?R \<noteq> None" .
  then obtain r m' d' h' where R: "?R = Some (r, m', d', h')" by (cases ?R) auto
  have "log hw0 = []" by (simp add: hw0_def)
  then have l: "log h' = log hw0 @ result_log ?R" by (simp add: R result_log_def)
  have nt: "\<not> list_ex is_timeout (result_log ?R)" by (simp add: ready_log)
  from t [THEN conjunct2, rule_format, OF conjI [OF R conjI [OF l nt]]]
  have "actual_length m' = sum_list (map len (transfers msg_ok))" by simp
  then have "actual_length m' = 7"
    by (simp add: msg_ok_def xfer_tx4_def xfer_rx3_def)
  then have "result_length ?R = Some 7"
    by (simp add: R result_length_def)
  with valid_msg_ok cp nt show ?thesis by simp
qed

subsection \<open>Short transfers\<close>

text \<open>
  C4. For a message that passed validation, on a device that is set up, the
  sequencer returns when the clock goes on, and whatever happened it returns 0
  and leaves the message's \<^verbatim>\<open>status\<close> 0: the \<^verbatim>\<open>-EIO\<close> of a short transfer stays in
  its local variable. A transfer is short exactly when a per-unit wait of the
  primitive timed out; when the log shows one, nothing of the message follows it
  but the Config write that clears SPI-enable and the finalisation, and
  \<^verbatim>\<open>actual_length\<close> is below the total the transfers asked for.
\<close>

theorem short_transfer_absorbed:
  assumes "transfers m \<noteq> []" "kp_spi_validate (transfers m)" "controller_state spidev = Some cs"
  shows "(clock_progress e \<longrightarrow> kp_spi_transfer_one_message e spidev m h \<noteq> None) \<and>
         (\<forall>r m' spidev' h' evs.
            kp_spi_transfer_one_message e spidev m h = Some (r, m', spidev', h')
            \<and> log h' = log h @ evs
            \<longrightarrow> r = Returns 0 \<and> status m' = 0
                \<and> (list_ex unit_timeout evs \<longrightarrow>
                      (\<exists>pre w v2. sig evs = pre @ [w, Writeq KP_SPI_REG_CONFIG (ucast v2), Finalize]
                          \<and> unit_timeout w \<and> \<not> list_ex unit_timeout pre \<and> get_spi_en v2 = 0)
                      \<and> unat (actual_length m') < total_len (transfers m)))"
proof (intro conjI allI impI)
  assume "clock_progress e"
  then show "kp_spi_transfer_one_message e spidev m h \<noteq> None" by (rule message_total)
next
  fix r m' spidev' h' evs
  assume a: "kp_spi_transfer_one_message e spidev m h = Some (r, m', spidev', h')
            \<and> log h' = log h @ evs"
  then have run: "kp_spi_transfer_one_message e spidev m h = Some (r, m', spidev', h')"
    and l: "log h' = log h @ evs" by simp_all
  from message_trace [OF assms run] obtain evs' where
    r: "r = Returns 0" "status m' = 0" and l': "log h' = log h @ evs'"
    and me': "message_events m m' evs'"
    by blast
  from l l' have ee: "evs' = evs" by simp
  from me' [unfolded ee message_events_def] obtain v1 where
    "get_spi_en v1 = 1 \<and>
       (sig evs = [Writeq KP_SPI_REG_CONFIG (ucast v1),
                        WaitTimeout KP_SPI_REG_STATUS KP_SPI_REG_STATUS_EOT, DevInfo, Finalize]
               \<and> m' = m\<lparr>actual_length := 0, status := 0\<rparr>
             \<or> (\<exists>body v2 n.
                   sig evs = Writeq KP_SPI_REG_CONFIG (ucast v1) # body
                               @ [Writeq KP_SPI_REG_CONFIG (ucast v2), Finalize]
                   \<and> get_spi_en v2 = 0 \<and> actual_length m' = of_nat n
                   \<and> (if list_ex unit_timeout body
                       then n < total_len (transfers m)
                            \<and> (\<exists>pre w. body = pre @ [w] \<and> unit_timeout w
                                  \<and> \<not> list_ex unit_timeout pre)
                       else n = total_len (transfers m))))" ..
  then have
    d: "sig evs = [Writeq KP_SPI_REG_CONFIG (ucast v1),
                        WaitTimeout KP_SPI_REG_STATUS KP_SPI_REG_STATUS_EOT, DevInfo, Finalize]
               \<and> m' = m\<lparr>actual_length := 0, status := 0\<rparr>
             \<or> (\<exists>body v2 n.
                   sig evs = Writeq KP_SPI_REG_CONFIG (ucast v1) # body
                               @ [Writeq KP_SPI_REG_CONFIG (ucast v2), Finalize]
                   \<and> get_spi_en v2 = 0 \<and> actual_length m' = of_nat n
                   \<and> (if list_ex unit_timeout body
                       then n < total_len (transfers m)
                            \<and> (\<exists>pre w. body = pre @ [w] \<and> unit_timeout w
                                  \<and> \<not> list_ex unit_timeout pre)
                       else n = total_len (transfers m)))"
    by (rule conjunct2)
  show "r = Returns 0" by (rule r(1))
  show "status m' = 0" by (rule r(2))
  assume ex: "list_ex unit_timeout evs"
  from d have "(\<exists>pre w v2. sig evs = pre @ [w, Writeq KP_SPI_REG_CONFIG (ucast v2), Finalize]
                          \<and> unit_timeout w \<and> \<not> list_ex unit_timeout pre \<and> get_spi_en v2 = 0)
               \<and> unat (actual_length m') < total_len (transfers m)"
  proof
    assume "sig evs = [Writeq KP_SPI_REG_CONFIG (ucast v1),
                        WaitTimeout KP_SPI_REG_STATUS KP_SPI_REG_STATUS_EOT, DevInfo, Finalize]
               \<and> m' = m\<lparr>actual_length := 0, status := 0\<rparr>"
    then have "\<not> list_ex unit_timeout (sig evs)" by simp
    with ex show ?thesis by simp
  next
    assume "\<exists>body v2 n.
                   sig evs = Writeq KP_SPI_REG_CONFIG (ucast v1) # body
                               @ [Writeq KP_SPI_REG_CONFIG (ucast v2), Finalize]
                   \<and> get_spi_en v2 = 0 \<and> actual_length m' = of_nat n
                   \<and> (if list_ex unit_timeout body
                       then n < total_len (transfers m)
                            \<and> (\<exists>pre w. body = pre @ [w] \<and> unit_timeout w
                                  \<and> \<not> list_ex unit_timeout pre)
                       else n = total_len (transfers m))"
    then obtain body v2 n where
      s: "sig evs = Writeq KP_SPI_REG_CONFIG (ucast v1) # body
                               @ [Writeq KP_SPI_REG_CONFIG (ucast v2), Finalize]" and
      en: "get_spi_en v2 = 0" and
      al: "actual_length m' = of_nat n" and
      i: "if list_ex unit_timeout body
                       then n < total_len (transfers m)
                            \<and> (\<exists>pre w. body = pre @ [w] \<and> unit_timeout w
                                  \<and> \<not> list_ex unit_timeout pre)
                       else n = total_len (transfers m)"
      by (elim exE conjE) (rule that)
    have "list_ex unit_timeout body = list_ex unit_timeout evs"
      by (rule unit_timeout_sig_body [OF s]) simp_all
    with ex i obtain pre w where
      n: "n < total_len (transfers m)" and
      p: "body = pre @ [w]" "unit_timeout w" "\<not> list_ex unit_timeout pre"
      by auto
    have "sig evs = (Writeq KP_SPI_REG_CONFIG (ucast v1) # pre)
                      @ [w, Writeq KP_SPI_REG_CONFIG (ucast v2), Finalize]"
      using s p(1) by simp
    moreover have "\<not> list_ex unit_timeout (Writeq KP_SPI_REG_CONFIG (ucast v1) # pre)"
      using p(3) by simp
    ultimately have 1: "\<exists>pre w v2. sig evs = pre @ [w, Writeq KP_SPI_REG_CONFIG (ucast v2), Finalize]
                          \<and> unit_timeout w \<and> \<not> list_ex unit_timeout pre \<and> get_spi_en v2 = 0"
      using p(2) en by blast
    have "unat (of_nat n :: u32) \<le> n" by (simp add: unat_of_nat)
    with n al have 2: "unat (actual_length m') < total_len (transfers m)" by simp
    from 1 2 show ?thesis by (rule conjI)
  qed
  then show "\<exists>pre w v2. sig evs = pre @ [w, Writeq KP_SPI_REG_CONFIG (ucast v2), Finalize]
                          \<and> unit_timeout w \<and> \<not> list_ex unit_timeout pre \<and> get_spi_en v2 = 0"
    and "unat (actual_length m') < total_len (transfers m)" by simp_all
qed

theorem short_transfer_absorbed_witness:
  "transfers msg_ok \<noteq> [] \<and> kp_spi_validate (transfers msg_ok) \<and> controller_state dev0 = Some cs0
   \<and> clock_progress env_stall
   \<and> list_ex unit_timeout (result_log (kp_spi_transfer_one_message env_stall dev0 msg_ok hw0))
   \<and> (\<exists>m' d' h'. kp_spi_transfer_one_message env_stall dev0 msg_ok hw0
                     = Some (Returns 0, m', d', h')
          \<and> status m' = 0 \<and> unat (actual_length m') < total_len (transfers msg_ok))"
proof -
  let ?R = "kp_spi_transfer_one_message env_stall dev0 msg_ok hw0"
  have cp: "clock_progress env_stall"
    by (rule clock_progress_2000) (simp_all add: env_stall_def)
  note t = short_transfer_absorbed [OF valid_msg_ok, of env_stall hw0]
  from t [THEN conjunct1, rule_format, OF cp] have "?R \<noteq> None" .
  then obtain r m' d' h' where R: "?R = Some (r, m', d', h')" by (cases ?R) auto
  have "log hw0 = []" by (simp add: hw0_def)
  then have l: "log h' = log hw0 @ result_log ?R" by (simp add: R result_log_def)
  have ut: "list_ex unit_timeout (result_log ?R)" by (simp add: stall_log)
  from t [THEN conjunct2, rule_format, OF conjI [OF R l]]
  have "r = Returns 0" "status m' = 0"
    "list_ex unit_timeout (result_log ?R) \<longrightarrow>
       (\<exists>pre w v2. sig (result_log ?R) = pre @ [w, Writeq KP_SPI_REG_CONFIG (ucast v2), Finalize]
           \<and> unit_timeout w \<and> \<not> list_ex unit_timeout pre \<and> get_spi_en v2 = 0)
       \<and> unat (actual_length m') < total_len (transfers msg_ok)"
    by simp_all
  with ut R have "\<exists>m' d' h'. ?R = Some (Returns 0, m', d', h')
          \<and> status m' = 0 \<and> unat (actual_length m') < total_len (transfers msg_ok)"
    by blast
  with valid_msg_ok cp ut show ?thesis by simp
qed

section \<open>The claims about the byte transfer primitive\<close>

lemma filter_tx_write_sig [simp]: "filter tx_write (sig evs) = filter tx_write evs"
  by (induction evs) (auto elim: tx_write.elims)

lemma filter_rx_read_sig [simp]: "filter rx_read (sig evs) = filter rx_read evs"
  by (induction evs) (auto elim: rx_read.elims)

lemma filter_tx_write_map [simp]:
  "filter tx_write (map (\<lambda>n. Writeq KP_SPI_REG_TXDATA (f n)) ns)
     = map (\<lambda>n. Writeq KP_SPI_REG_TXDATA (f n)) ns"
  by (induction ns) simp_all

lemma filter_rx_read_map [simp]:
  "filter rx_read (map (\<lambda>n. Writeq KP_SPI_REG_TXDATA (f n)) ns) = []"
  by (induction ns) simp_all

lemma length_rx_read_pairs [simp]: "length (filter rx_read (rx_pairs vs)) = length vs"
  by (induction vs) (simp_all add: rx_pairs_def)

lemma txrx_trace_moved:
  assumes "txrx_trace t k evs t'"
  shows "units_moved t evs = k \<and> (\<not> has_buf t \<longrightarrow> \<not> list_ex unit_timeout evs)"
proof -
  from assms(1) obtain eot where
    eot: "eot = [] \<or> eot = [WaitTimeout KP_SPI_REG_STATUS KP_SPI_REG_STATUS_EOT]" and
    c: "case tx_buf t of
           Some tx \<Rightarrow>
             t' = t \<and>
             sig evs = map (\<lambda>n. Writeq KP_SPI_REG_TXDATA (char_to_u64 (tx n))) [0..<k]
                       @ (if k = unat (len t) then eot
                          else [WaitTimeout KP_SPI_REG_STATUS KP_SPI_REG_STATUS_TXS])
         | None \<Rightarrow>
             (case rx_buf t of
                Some rx \<Rightarrow>
                  (\<exists>vs. length vs = k \<and>
                     t' = t\<lparr>rx_buf := Some (\<lambda>n. if n < k then ucast (vs ! n) else rx n)\<rparr> \<and>
                     sig evs = rx_pairs vs
                               @ (if k = unat (len t) then eot
                                  else [Writeq KP_SPI_REG_TXDATA 0,
                                        WaitTimeout KP_SPI_REG_STATUS KP_SPI_REG_STATUS_RXS]))
              | None \<Rightarrow> k = 0 \<and> t' = t \<and> sig evs = eot)"
    unfolding txrx_trace_def by (elim exE conjE) (rule that)
  have e1: "filter tx_write eot = []" "filter rx_read eot = []" using eot by auto
  show ?thesis
  proof (cases "tx_buf t")
    case (Some tx)
    with c have "sig evs = map (\<lambda>n. Writeq KP_SPI_REG_TXDATA (char_to_u64 (tx n))) [0..<k]
                       @ (if k = unat (len t) then eot
                          else [WaitTimeout KP_SPI_REG_STATUS KP_SPI_REG_STATUS_TXS])" by simp
    then have "length (filter tx_write (sig evs)) = k" using e1 by simp
    with Some show ?thesis by (simp add: units_moved_def has_buf_def)
  next
    case None
    show ?thesis
    proof (cases "rx_buf t")
      case (Some rx)
      with c None obtain vs where
        "length vs = k"
        "sig evs = rx_pairs vs
                     @ (if k = unat (len t) then eot
                        else [Writeq KP_SPI_REG_TXDATA 0,
                              WaitTimeout KP_SPI_REG_STATUS KP_SPI_REG_STATUS_RXS])"
        by auto
      then have "length (filter rx_read (sig evs)) = k" using e1 by simp
      with None Some show ?thesis by (simp add: units_moved_def has_buf_def)
    next
      case n2: None
      with c None have k0: "k = 0" and s: "sig evs = eot" by simp_all
      from s e1 have "length (filter rx_read (sig evs)) = 0" by simp
      moreover from s eot have "\<not> list_ex unit_timeout (sig evs)" by auto
      ultimately show ?thesis using None k0 by (simp add: units_moved_def)
    qed
  qed
qed

text \<open>The loops against the primitive in the words of the specification.\<close>

lemma tx_loop_units:
  assumes "kp_spi_tx_loop e cs tx c i p h = Some (fin, p', cs', h')" "i \<le> c"
  shows "\<exists>k. i \<le> k \<and> k \<le> c \<and> (fin \<longleftrightarrow> k = c) \<and> p' = p + of_nat (k - i) \<and> cs' = cs
            \<and> send_units e cs (map tx [i..<c]) h
                = Some (replicate (k - i) 0 @ (if fin then [] else [- ETIMEDOUT]), h')"
  using assms
proof (induction e cs tx c i p h rule: kp_spi_tx_loop.induct)
  case (1 e cs tx c i p h)
  note eq [simp] = kp_spi_tx_loop.simps [of e cs tx c i p h]
  show ?case
  proof (cases "i < c")
    case False
    with 1(2,3) have "fin" "p' = p" "cs' = cs" "h' = h" "i = c" by simp_all
    then show ?thesis by (intro exI [of _ i]) simp
  next
    case lt: True
    then obtain r h1 where
      w: "kp_spi_wait_for_reg_bit e cs KP_SPI_REG_STATUS KP_SPI_REG_STATUS_TXS h = Some (r, h1)"
      using 1(2) by (auto split: option.splits)
    from wait_status [OF w] have r: "r = 0 \<or> r = - ETIMEDOUT" by blast
    have up: "[i..<c] = i # [Suc i..<c]" using lt by (rule upt_conv_Cons)
    show ?thesis
    proof (cases "r < 0")
      case True
      with 1(2) lt w have "\<not> fin" "p' = p" "cs' = cs" "h' = h1" by simp_all
      moreover from True r have "r = - ETIMEDOUT" by auto
      ultimately show ?thesis using lt w
        by (intro exI [of _ i]) (simp add: up)
    next
      case False
      with r have r0: "r = 0" by auto
      let ?w = "kp_spi_write_reg cs KP_SPI_REG_TXDATA (char_to_u64 (tx i)) h1"
      have rec: "kp_spi_tx_loop e (fst ?w) tx c (Suc i) (p + 1) (snd ?w) = Some (fin, p', cs', h')"
        using 1(2) lt w False by simp
      have fw: "fst ?w = cs"
        "snd ?w = h1\<lparr>log := log h1 @ [Writeq KP_SPI_REG_TXDATA (char_to_u64 (tx i))]\<rparr>"
        by (simp_all add: kp_spi_write_reg_def)
      from 1(1) [OF lt w refl False rec] lt obtain k where
        k: "Suc i \<le> k" "k \<le> c" "fin \<longleftrightarrow> k = c" "p' = p + 1 + of_nat (k - Suc i)" "cs' = cs"
           "send_units e cs (map tx [Suc i..<c]) (snd ?w)
                = Some (replicate (k - Suc i) 0 @ (if fin then [] else [- ETIMEDOUT]), h')"
        unfolding fw(1) by auto
      have ik: "i < k" using k(1) by simp
      have p: "p' = p + of_nat (k - i)"
        using k(4) ik by (simp add: Suc_diff_Suc [symmetric] del: Suc_diff_Suc)
      have rp: "replicate (k - i) (0::int) = 0 # replicate (k - Suc i) 0"
        using ik by (simp add: Suc_diff_Suc [symmetric] del: Suc_diff_Suc)
      have "send_units e cs (map tx [i..<c]) h
                = Some (replicate (k - i) 0 @ (if fin then [] else [- ETIMEDOUT]), h')"
        using k(6) w r0 unfolding up rp fw(2) by simp
      with k(2,3,5) ik p show ?thesis
        by (intro exI [of _ k]) simp
    qed
  qed
qed

lemma rx_loop_units:
  assumes "kp_spi_rx_loop e cs rx c i p h = Some (fin, p', rx', cs', h')" "i \<le> c"
  shows "\<exists>k us. i \<le> k \<and> k \<le> c \<and> (fin \<longleftrightarrow> k = c) \<and> p' = p + of_nat (k - i) \<and> cs' = cs
            \<and> length us = k - i
            \<and> recv_units e cs (c - i) h
                = Some (replicate (k - i) 0 @ (if fin then [] else [- ETIMEDOUT]), us, h')
            \<and> rx' = (\<lambda>n. if i \<le> n \<and> n < k then us ! (n - i) else rx n)"
  using assms
proof (induction e cs rx c i p h rule: kp_spi_rx_loop.induct)
  case (1 e cs rx c i p h)
  note eq [simp] = kp_spi_rx_loop.simps [of e cs rx c i p h]
  show ?case
  proof (cases "i < c")
    case False
    with 1(2,3) have "fin" "p' = p" "cs' = cs" "h' = h" "i = c" "rx' = rx" by simp_all
    then show ?thesis
      by (intro exI [of _ i] exI [of _ "[]"]) (auto simp: fun_eq_iff)
  next
    case lt: True
    let ?w = "kp_spi_write_reg cs KP_SPI_REG_TXDATA 0 h"
    have fw: "fst ?w = cs" "snd ?w = h\<lparr>log := log h @ [Writeq KP_SPI_REG_TXDATA 0]\<rparr>"
      by (simp_all add: kp_spi_write_reg_def)
    obtain r h1 where
      w: "kp_spi_wait_for_reg_bit e (fst ?w) KP_SPI_REG_STATUS KP_SPI_REG_STATUS_RXS (snd ?w) = Some (r, h1)"
      using 1(2) lt by (auto simp: Let_def split: option.splits)
    from wait_status [OF w] have r: "r = 0 \<or> r = - ETIMEDOUT" by blast
    note w' = w [unfolded fw]
    have ci: "c - i = Suc (c - Suc i)" using lt by simp
    show ?thesis
    proof (cases "r < 0")
      case True
      with 1(2) lt w have "\<not> fin" "p' = p" "cs' = cs" "h' = h1" "rx' = rx"
        by (simp_all add: Let_def)
      moreover from True r have "r = - ETIMEDOUT" by auto
      ultimately show ?thesis using lt w'
        by (intro exI [of _ i] exI [of _ "[]"]) (auto simp: ci fun_eq_iff)
    next
      case False
      with r have r0: "r = 0" by auto
      let ?rd = "kp_spi_read_reg e (fst ?w) KP_SPI_REG_RXDATA h1"
      let ?v = "readq_val e (n_readq h1) KP_SPI_REG_RXDATA"
      let ?rx1 = "rx(i := ucast (fst ?rd))"
      have rd: "fst ?rd = ?v"
        "snd ?rd = h1\<lparr>n_readq := Suc (n_readq h1), log := log h1 @ [Readq KP_SPI_REG_RXDATA ?v]\<rparr>"
        by (simp_all add: kp_spi_read_reg_def)
      have rec: "kp_spi_rx_loop e (fst ?w) ?rx1 c (Suc i) (p + 1) (snd ?rd) = Some (fin, p', rx', cs', h')"
        using 1(2) lt w False by (simp add: Let_def)
      from 1(1) [OF lt refl w refl False rec] lt fw(1) obtain k us where
        k: "Suc i \<le> k" "k \<le> c" "fin \<longleftrightarrow> k = c" "p' = p + 1 + of_nat (k - Suc i)" "cs' = cs"
           "length us = k - Suc i"
           "recv_units e cs (c - Suc i) (snd ?rd)
                = Some (replicate (k - Suc i) 0 @ (if fin then [] else [- ETIMEDOUT]), us, h')"
           "rx' = (\<lambda>n. if Suc i \<le> n \<and> n < k then us ! (n - Suc i) else ?rx1 n)"
        by auto
      have ik: "i < k" using k(1) by simp
      have p: "p' = p + of_nat (k - i)"
        using k(4) ik by (simp add: Suc_diff_Suc [symmetric] del: Suc_diff_Suc)
      have rp: "replicate (k - i) (0::int) = 0 # replicate (k - Suc i) 0"
        using ik by (simp add: Suc_diff_Suc [symmetric] del: Suc_diff_Suc)
      have ru: "recv_units e cs (c - i) h
                = Some (replicate (k - i) 0 @ (if fin then [] else [- ETIMEDOUT]), ucast ?v # us, h')"
        using k(7) w' r0 unfolding ci rp rd by (simp add: Let_def)
      have len: "length (ucast ?v # us) = k - i" using k(6) ik by simp
      have rx: "rx' = (\<lambda>n. if i \<le> n \<and> n < k then (ucast ?v # us) ! (n - i) else rx n)"
        unfolding k(8) rd using ik by (auto simp: fun_eq_iff nth_Cons')
      from k(2,3,5) ik p len ru rx show ?thesis
        by (intro exI [of _ k] exI [of _ "ucast ?v # us"]) simp
    qed
  qed
qed


lemma txrx_pio_units:
  assumes "kp_spi_txrx_pio e cs t h = Some (count, t', cs', h')"
  shows "\<exists>us h1.
           pio_units e cs t h
             = Some (replicate (unat count) 0
                       @ (if has_buf t \<and> count \<noteq> len t then [- ETIMEDOUT] else []), us, h1)
           \<and> (if has_buf t \<and> count \<noteq> len t then h' = h1
              else (\<exists>r. kp_spi_wait_for_reg_bit e cs KP_SPI_REG_STATUS KP_SPI_REG_STATUS_EOT h1
                          = Some (r, h')))
           \<and> length us = (if tx_buf t = None then unat count else 0)
           \<and> t' = units_stored t us \<and> cs' = cs"
proof (cases "tx_buf t")
  case (Some tx)
  then have hb: "has_buf t" by (simp add: has_buf_def)
  obtain fin p cs1 h1 where
    lp: "kp_spi_tx_loop e cs tx (unat (len t)) 0 0 h = Some (fin, p, cs1, h1)"
  proof (cases "kp_spi_tx_loop e cs tx (unat (len t)) 0 0 h")
    case None
    with assms txrx_pio_tx_None [OF Some None] show ?thesis by simp
  next
    case (Some y)
    with that show ?thesis by (cases y) auto
  qed
  note eq = txrx_pio_tx [OF Some lp]
  from tx_loop_units [OF lp] obtain k where
    k: "k \<le> unat (len t)" "fin \<longleftrightarrow> k = unat (len t)" "p = of_nat k" "cs1 = cs"
       "send_units e cs (map tx [0..<unat (len t)]) h
          = Some (replicate k 0 @ (if fin then [] else [- ETIMEDOUT]), h1)"
    by auto
  have us: "units_stored t [] = t" by (simp add: units_stored_def Some split: option.splits)
  have pu: "pio_units e cs t h = Some (replicate k 0 @ (if fin then [] else [- ETIMEDOUT]), [], h1)"
    by (simp add: pio_units_def Some k(5))
  have uc: "unat p = k" using k(1,3) by (simp add: le_unat_uoi)
  have ce: "p = len t \<longleftrightarrow> fin"
    using of_nat_eq_len [OF k(1)] k(2,3) by simp
  show ?thesis
  proof (cases fin)
    case True
    with assms eq obtain r where
      w: "kp_spi_wait_for_reg_bit e cs1 KP_SPI_REG_STATUS KP_SPI_REG_STATUS_EOT h1 = Some (r, h')"
      and r: "count = p" "t' = t" "cs' = cs1"
      by (auto split: option.splits)
    from w k(4) have "\<exists>r. kp_spi_wait_for_reg_bit e cs KP_SPI_REG_STATUS KP_SPI_REG_STATUS_EOT h1
                          = Some (r, h')" by auto
    with pu uc ce True r k(4) us Some show ?thesis
      by (intro exI [of _ "[]"] exI [of _ h1]) simp
  next
    case False
    with assms eq have r: "count = p" "t' = t" "cs' = cs1" "h' = h1"
      by auto
    with pu uc ce False k(4) us Some hb show ?thesis
      by (intro exI [of _ "[]"] exI [of _ h1]) simp
  qed
next
  case None
  show ?thesis
  proof (cases "rx_buf t")
    case (Some rx)
    with None have hb: "has_buf t" by (simp add: has_buf_def)
    obtain fin p rx1 cs1 h1 where
      lp: "kp_spi_rx_loop e cs rx (unat (len t)) 0 0 h = Some (fin, p, rx1, cs1, h1)"
    proof (cases "kp_spi_rx_loop e cs rx (unat (len t)) 0 0 h")
      case n: None
      with assms txrx_pio_rx_None [OF None Some n] show ?thesis by simp
    next
      case (Some y)
      with that show ?thesis by (cases y) auto
    qed
    note eq = txrx_pio_rx [OF None Some lp]
    from rx_loop_units [OF lp] obtain k us where
      k: "k \<le> unat (len t)" "fin \<longleftrightarrow> k = unat (len t)" "p = of_nat k" "cs1 = cs"
         "length us = k"
         "recv_units e cs (unat (len t)) h
            = Some (replicate k 0 @ (if fin then [] else [- ETIMEDOUT]), us, h1)"
         "rx1 = (\<lambda>n. if 0 \<le> n \<and> n < k then us ! (n - 0) else rx n)"
      by auto
    have "rx1 = (\<lambda>n. if n < k then us ! n else rx n)"
      unfolding k(7) by (simp add: fun_eq_iff)
    then have st: "units_stored t us = t\<lparr>rx_buf := Some rx1\<rparr>"
      by (simp add: units_stored_def Some None k(5))
    have pu: "pio_units e cs t h = Some (replicate k 0 @ (if fin then [] else [- ETIMEDOUT]), us, h1)"
      by (simp add: pio_units_def Some None k(6))
    have uc: "unat p = k" using k(1,3) by (simp add: le_unat_uoi)
    have ce: "p = len t \<longleftrightarrow> fin"
      using of_nat_eq_len [OF k(1)] k(2,3) by simp
    show ?thesis
    proof (cases fin)
      case True
      with assms eq obtain r where
        w: "kp_spi_wait_for_reg_bit e cs1 KP_SPI_REG_STATUS KP_SPI_REG_STATUS_EOT h1 = Some (r, h')"
        and r: "count = p" "t' = t\<lparr>rx_buf := Some rx1\<rparr>" "cs' = cs1"
        by (auto split: option.splits)
      from w k(4) have "\<exists>r. kp_spi_wait_for_reg_bit e cs KP_SPI_REG_STATUS KP_SPI_REG_STATUS_EOT h1
                          = Some (r, h')" by auto
      with pu uc ce True r k(4,5) st None show ?thesis
        by (intro exI [of _ us] exI [of _ h1]) simp
    next
      case False
      with assms eq have r: "count = p" "t' = t\<lparr>rx_buf := Some rx1\<rparr>" "cs' = cs1" "h' = h1"
        by auto
      with pu uc ce False k(4,5) st None hb show ?thesis
        by (intro exI [of _ us] exI [of _ h1]) simp
    qed
  next
    case n2: None
    with assms txrx_pio_none [OF None n2, of e cs h] obtain r where
      w: "kp_spi_wait_for_reg_bit e cs KP_SPI_REG_STATUS KP_SPI_REG_STATUS_EOT h = Some (r, h')"
      and r: "count = 0" "t' = t" "cs' = cs"
      by (auto split: option.splits)
    have "\<not> has_buf t" using None n2 by (simp add: has_buf_def)
    moreover have "pio_units e cs t h = Some ([], [], h)" by (simp add: pio_units_def None n2)
    moreover have "units_stored t [] = t" by (simp add: units_stored_def n2)
    ultimately show ?thesis using w r None
      by (intro exI [of _ "[]"] exI [of _ h]) auto
  qed
qed

text \<open>Neither do the loops and the primitive.\<close>

lemma snd_write_reg: "snd (kp_spi_write_reg cs idx v h) = h\<lparr>log := log h @ [Writeq idx v]\<rparr>"
  by (simp add: kp_spi_write_reg_def)

lemma read_rxdata_any_state:
  "kp_spi_read_reg e cs KP_SPI_REG_RXDATA h = kp_spi_read_reg e cs2 KP_SPI_REG_RXDATA h"
  by (simp add: kp_spi_read_reg_def)

lemma tx_loop_any_state:
  "kp_spi_tx_loop e cs2 tx c i p h
     = map_option (\<lambda>(fin, p', cs', h'). (fin, p', cs2, h')) (kp_spi_tx_loop e cs tx c i p h)"
proof (induction e cs tx c i p h rule: kp_spi_tx_loop.induct)
  case (1 e cs tx c i p h)
  note eq = kp_spi_tx_loop.simps [of e cs tx c i p h] kp_spi_tx_loop.simps [of e cs2 tx c i p h]
  note w = wait_any_state [of e cs2 KP_SPI_REG_STATUS_TXS h cs]
  show ?case
  proof (cases "i < c")
    case False
    then show ?thesis by (simp add: eq)
  next
    case lt: True
    show ?thesis
    proof (cases "kp_spi_wait_for_reg_bit e cs KP_SPI_REG_STATUS KP_SPI_REG_STATUS_TXS h")
      case None
      with lt show ?thesis by (simp add: eq w)
    next
      case (Some y)
      obtain r h1 where y: "y = (r, h1)" by (cases y)
      show ?thesis
      proof (cases "r < 0")
        case True
        with lt Some y show ?thesis by (simp add: eq w)
      next
        case False
        from 1 [OF lt Some [unfolded y] refl False]
        show ?thesis using lt Some y False by (simp add: eq w snd_write_reg)
      qed
    qed
  qed
qed

lemma rx_loop_any_state:
  "kp_spi_rx_loop e cs2 rx c i p h
     = map_option (\<lambda>(fin, p', rx', cs', h'). (fin, p', rx', cs2, h'))
         (kp_spi_rx_loop e cs rx c i p h)"
proof (induction e cs rx c i p h rule: kp_spi_rx_loop.induct)
  case (1 e cs rx c i p h)
  note eq = kp_spi_rx_loop.simps [of e cs rx c i p h] kp_spi_rx_loop.simps [of e cs2 rx c i p h]
  let ?h0 = "h\<lparr>log := log h @ [Writeq KP_SPI_REG_TXDATA 0]\<rparr>"
  note w = wait_any_state [of e cs2 KP_SPI_REG_STATUS_RXS ?h0 cs]
  show ?case
  proof (cases "i < c")
    case False
    then show ?thesis by (simp add: eq)
  next
    case lt: True
    show ?thesis
    proof (cases "kp_spi_wait_for_reg_bit e cs KP_SPI_REG_STATUS KP_SPI_REG_STATUS_RXS ?h0")
      case None
      with lt show ?thesis by (simp add: eq w Let_def snd_write_reg)
    next
      case (Some y)
      obtain r h1 where y: "y = (r, h1)" by (cases y)
      note rd = read_rxdata_any_state [of e cs2 h1 cs]
      show ?thesis
      proof (cases "r < 0")
        case True
        with lt Some y show ?thesis by (simp add: eq w Let_def snd_write_reg)
      next
        case False
        have "kp_spi_wait_for_reg_bit e (fst (kp_spi_write_reg cs KP_SPI_REG_TXDATA 0 h))
                KP_SPI_REG_STATUS KP_SPI_REG_STATUS_RXS (snd (kp_spi_write_reg cs KP_SPI_REG_TXDATA 0 h))
                = Some (r, h1)"
          using Some y by (simp add: snd_write_reg)
        note IH0 = 1 [OF lt refl this refl False]
        have IH: "kp_spi_rx_loop e cs2
           (rx(i := ucast (fst (kp_spi_read_reg e cs KP_SPI_REG_RXDATA h1)))) c (Suc i) (p + 1)
           (snd (kp_spi_read_reg e cs KP_SPI_REG_RXDATA h1)) =
          map_option (\<lambda>(fin, p', rx', cs', h'). (fin, p', rx', cs2, h'))
           (kp_spi_rx_loop e cs
             (rx(i := ucast (fst (kp_spi_read_reg e cs KP_SPI_REG_RXDATA h1)))) c (Suc i)
             (p + 1) (snd (kp_spi_read_reg e cs KP_SPI_REG_RXDATA h1)))"
          using IH0 by (simp del: fun_upd_apply)
        show ?thesis using lt Some y False
          by (simp add: eq w Let_def snd_write_reg rd) (simp only: IH)
      qed
    qed
  qed
qed

lemma txrx_pio_any_state:
  "kp_spi_txrx_pio e cs2 t h
     = map_option (\<lambda>(count, t', cs', h'). (count, t', cs2, h')) (kp_spi_txrx_pio e cs t h)"
proof (cases "tx_buf t")
  case (Some tx)
  note l = tx_loop_any_state [of e cs2 tx "unat (len t)" 0 0 h cs]
  show ?thesis
  proof (cases "kp_spi_tx_loop e cs tx (unat (len t)) 0 0 h")
    case None
    with l have "kp_spi_tx_loop e cs2 tx (unat (len t)) 0 0 h = None" by simp
    from txrx_pio_tx_None [OF Some this] txrx_pio_tx_None [OF Some None] show ?thesis by simp
  next
    case lp: (Some y)
    obtain fin p cs1 h1 where y: "y = (fin, p, cs1, h1)" by (cases y)
    from l lp y have l2: "kp_spi_tx_loop e cs2 tx (unat (len t)) 0 0 h = Some (fin, p, cs2, h1)"
      by simp
    note w = wait_any_state [of e cs2 KP_SPI_REG_STATUS_EOT h1 cs1]
    show ?thesis
      unfolding txrx_pio_tx [OF Some l2] txrx_pio_tx [OF Some lp [unfolded y]] w
      by (simp split: option.splits)
  qed
next
  case None
  show ?thesis
  proof (cases "rx_buf t")
    case (Some rx)
    note l = rx_loop_any_state [of e cs2 rx "unat (len t)" 0 0 h cs]
    show ?thesis
    proof (cases "kp_spi_rx_loop e cs rx (unat (len t)) 0 0 h")
      case n: None
      with l have "kp_spi_rx_loop e cs2 rx (unat (len t)) 0 0 h = None" by simp
      from txrx_pio_rx_None [OF None Some this] txrx_pio_rx_None [OF None Some n]
      show ?thesis by simp
    next
      case lp: (Some y)
      obtain fin p rx1 cs1 h1 where y: "y = (fin, p, rx1, cs1, h1)" by (cases y)
      from l lp y
      have l2: "kp_spi_rx_loop e cs2 rx (unat (len t)) 0 0 h = Some (fin, p, rx1, cs2, h1)"
        by simp
      note w = wait_any_state [of e cs2 KP_SPI_REG_STATUS_EOT h1 cs1]
      show ?thesis
        unfolding txrx_pio_rx [OF None Some l2] txrx_pio_rx [OF None Some lp [unfolded y]] w
        by (simp split: option.splits)
    qed
  next
    case n2: None
    note w = wait_any_state [of e cs2 KP_SPI_REG_STATUS_EOT h cs]
    show ?thesis
      unfolding txrx_pio_none [OF None n2] w by (simp split: option.splits)
  qed
qed

lemma no_eot_run:
  "kp_spi_txrx_pio env_no_eot cs0 xfer_tx4 hw0 =
     Some (4, xfer_tx4, cs0,
       \<lparr>n_readq = 6, n_jiffies = 6,
        log = [Jiffies 0, Readq KP_SPI_REG_STATUS 3, Writeq KP_SPI_REG_TXDATA 1,
               Jiffies 2000, Readq KP_SPI_REG_STATUS 3, Writeq KP_SPI_REG_TXDATA 2,
               Jiffies 4000, Readq KP_SPI_REG_STATUS 3, Writeq KP_SPI_REG_TXDATA 3,
               Jiffies 6000, Readq KP_SPI_REG_STATUS 3, Writeq KP_SPI_REG_TXDATA 4,
               Jiffies 8000, Readq KP_SPI_REG_STATUS 3, Jiffies 10000, Readq KP_SPI_REG_STATUS 3,
               WaitTimeout KP_SPI_REG_STATUS KP_SPI_REG_STATUS_EOT]\<rparr>)"
  by (simp add: run_defs env_no_eot_def cs0_def xfer_tx4_def hw0_def)

lemma wide_run:
  "kp_spi_txrx_pio env_rx3 cs_wide xfer_rx3 hw0 =
     Some (3, xfer_rx3\<lparr>rx_buf := Some ((\<lambda>n. 0)(0 := 0xAA, Suc 0 := 0xBB, Suc (Suc 0) := 0xCC))\<rparr>,
       cs_wide,
       \<lparr>n_readq = 7, n_jiffies = 4,
        log = [Writeq KP_SPI_REG_TXDATA 0, Jiffies 0, Readq KP_SPI_REG_STATUS 7,
               Readq KP_SPI_REG_RXDATA 0xAA,
               Writeq KP_SPI_REG_TXDATA 0, Jiffies 2000, Readq KP_SPI_REG_STATUS 7,
               Readq KP_SPI_REG_RXDATA 0xBB,
               Writeq KP_SPI_REG_TXDATA 0, Jiffies 4000, Readq KP_SPI_REG_STATUS 7,
               Readq KP_SPI_REG_RXDATA 0xCC,
               Jiffies 6000, Readq KP_SPI_REG_STATUS 7]\<rparr>)"
  by (simp add: run_defs env_rx3_def cs_wide_def xfer_rx3_def hw0_def)

lemma stall_run:
  "kp_spi_txrx_pio env_stall cs0 xfer_tx4 hw0 =
     Some (3, xfer_tx4, cs0,
       \<lparr>n_readq = 5, n_jiffies = 5,
        log = [Jiffies 0, Readq KP_SPI_REG_STATUS 6, Writeq KP_SPI_REG_TXDATA 1,
               Jiffies 2000, Readq KP_SPI_REG_STATUS 6, Writeq KP_SPI_REG_TXDATA 2,
               Jiffies 4000, Readq KP_SPI_REG_STATUS 6, Writeq KP_SPI_REG_TXDATA 3,
               Jiffies 6000, Readq KP_SPI_REG_STATUS 4, Jiffies 8000, Readq KP_SPI_REG_STATUS 4,
               WaitTimeout KP_SPI_REG_STATUS KP_SPI_REG_STATUS_TXS]\<rparr>)"
  by (simp add: run_defs env_stall_def cs0_def xfer_tx4_def hw0_def)

text \<open>
  C5. \<^verbatim>\<open>kp_spi_txrx_pio\<close>, under any controller state (any configured word length):
  it returns when the clock goes on, and its count is never more than the length
  asked for. The units are bytes, and the count is the number of per-unit waits
  that returned 0: the per-unit waits of the call, made unit by unit as the
  specification says, return 0 as many times as the count says, and if the count
  is short of the length, one more of them returns \<^verbatim>\<open>-ETIMEDOUT\<close> and the call ends
  there, in the state that wait leaves, without an end-of-transfer wait. So the
  count is the length exactly when no per-unit wait fails, and otherwise the
  number of units completed before the one that fails. When no per-unit wait
  fails the call ends with the end-of-transfer wait, whatever that returns: its
  result is not in the count. The units received are at the start of the receive
  buffer. The log agrees: the count is the number of bytes written to TX-Data
  (send) or read from RX-Data (receive), and a per-unit timeout is in the log
  exactly when the count is short, as its last write, RX-Data read or timeout.
  (A transfer with no buffer, which the sequencer never passes, moves nothing.)
  The call does not look at the controller state: under any other one, with any
  other word length and any other cached Config value, it returns the same count
  and the same buffer and leaves the same hardware state.
\<close>

theorem txrx_pio_count:
  "(clock_progress e \<longrightarrow> kp_spi_txrx_pio e cs t h \<noteq> None) \<and>
   (\<forall>cs2. kp_spi_txrx_pio e cs2 t h
           = map_option (\<lambda>(count, t', cs', h'). (count, t', cs2, h'))
               (kp_spi_txrx_pio e cs t h)) \<and>
   (\<forall>count t' cs' h' evs.
      kp_spi_txrx_pio e cs t h = Some (count, t', cs', h') \<and> log h' = log h @ evs
      \<longrightarrow> unat count \<le> unat (len t)
          \<and> (\<exists>us h1.
                pio_units e cs t h
                  = Some (replicate (unat count) 0
                            @ (if has_buf t \<and> count \<noteq> len t then [- ETIMEDOUT] else []), us, h1)
                \<and> (if has_buf t \<and> count \<noteq> len t then h' = h1
                   else (\<exists>r. kp_spi_wait_for_reg_bit e cs KP_SPI_REG_STATUS
                                KP_SPI_REG_STATUS_EOT h1 = Some (r, h')))
                \<and> length us = (if tx_buf t = None then unat count else 0)
                \<and> t' = units_stored t us \<and> cs' = cs)
          \<and> unat count = units_moved t evs
          \<and> (has_buf t \<longrightarrow> (count = len t \<longleftrightarrow> \<not> list_ex unit_timeout evs))
          \<and> (list_ex unit_timeout evs \<longrightarrow>
                (\<exists>pre w. sig evs = pre @ [w] \<and> unit_timeout w
                   \<and> \<not> list_ex unit_timeout pre)))"
proof (intro conjI allI impI)
  assume "clock_progress e"
  then show "kp_spi_txrx_pio e cs t h \<noteq> None" by (rule txrx_pio_total)
next
  fix cs2
  show "kp_spi_txrx_pio e cs2 t h
           = map_option (\<lambda>(count, t', cs', h'). (count, t', cs2, h'))
               (kp_spi_txrx_pio e cs t h)"
    by (rule txrx_pio_any_state)
next
  fix count t' cs' h' evs
  assume a: "kp_spi_txrx_pio e cs t h = Some (count, t', cs', h') \<and> log h' = log h @ evs"
  then have run: "kp_spi_txrx_pio e cs t h = Some (count, t', cs', h')"
    and l: "log h' = log h @ evs" by simp_all
  from txrx_pio_trace [OF run] obtain k evs' where
    k: "k \<le> unat (len t)" "count = of_nat k" "log h' = log h @ evs'" "txrx_trace t k evs' t'"
    by blast
  from l k(3) have ee: "evs' = evs" by simp
  note tr = k(4) [unfolded ee]
  have uc: "unat count = k" using k(1,2) by (simp add: le_unat_uoi)
  have ce: "count = len t \<longleftrightarrow> k = unat (len t)"
    using of_nat_eq_len [OF k(1)] k(2) by simp
  note mv = txrx_trace_moved [OF tr]
  show "unat count \<le> unat (len t)" using uc k(1) by simp
  show "\<exists>us h1.
                pio_units e cs t h
                  = Some (replicate (unat count) 0
                            @ (if has_buf t \<and> count \<noteq> len t then [- ETIMEDOUT] else []), us, h1)
                \<and> (if has_buf t \<and> count \<noteq> len t then h' = h1
                   else (\<exists>r. kp_spi_wait_for_reg_bit e cs KP_SPI_REG_STATUS
                                KP_SPI_REG_STATUS_EOT h1 = Some (r, h')))
                \<and> length us = (if tx_buf t = None then unat count else 0)
                \<and> t' = units_stored t us \<and> cs' = cs"
    by (rule txrx_pio_units [OF run])
  show "unat count = units_moved t evs" using uc mv by simp
  {
    assume hb: "has_buf t"
    note u = txrx_trace_units [OF tr hb]
    show "count = len t \<longleftrightarrow> \<not> list_ex unit_timeout evs"
    proof (cases "k = unat (len t)")
      case True
      with u ce show ?thesis by simp
    next
      case False
      with u obtain pre w where "sig evs = pre @ [w]" "unit_timeout w" by auto
      then have "list_ex unit_timeout (sig evs)" by simp
      then have "list_ex unit_timeout evs" by simp
      with False ce show ?thesis by simp
    qed
  }
  assume ex: "list_ex unit_timeout evs"
  with mv have hb: "has_buf t" by blast
  note u = txrx_trace_units [OF tr hb]
  have "k \<noteq> unat (len t)" using u ex by auto
  with u show "\<exists>pre w. sig evs = pre @ [w] \<and> unit_timeout w \<and> \<not> list_ex unit_timeout pre"
    by simp
qed

theorem txrx_pio_count_witness:
  "clock_progress env_rx3 \<and> has_buf xfer_rx3 \<and> has_buf xfer_tx4
   \<and> (\<exists>h'. kp_spi_txrx_pio env_rx3 cs_wide xfer_rx3 hw0
              = Some (3, xfer_rx3\<lparr>rx_buf := Some ((\<lambda>n. 0)(0 := 0xAA, Suc 0 := 0xBB,
                                                       Suc (Suc 0) := 0xCC))\<rparr>, cs_wide, h')
         \<and> kp_spi_txrx_pio env_rx3 cs0 xfer_rx3 hw0
              = Some (3, xfer_rx3\<lparr>rx_buf := Some ((\<lambda>n. 0)(0 := 0xAA, Suc 0 := 0xBB,
                                                       Suc (Suc 0) := 0xCC))\<rparr>, cs0, h')
         \<and> (\<exists>us h1. pio_units env_rx3 cs_wide xfer_rx3 hw0 = Some ([0, 0, 0], us, h1)
                \<and> length us = 3)
         \<and> \<not> list_ex unit_timeout (log h') \<and> units_moved xfer_rx3 (log h') = 3)
   \<and> (\<exists>h'. kp_spi_txrx_pio env_stall cs0 xfer_tx4 hw0 = Some (3, xfer_tx4, cs0, h')
         \<and> pio_units env_stall cs0 xfer_tx4 hw0 = Some ([0, 0, 0, - ETIMEDOUT], [], h')
         \<and> list_ex unit_timeout (log h') \<and> units_moved xfer_tx4 (log h') = 3)
   \<and> (\<exists>h'. kp_spi_txrx_pio env_no_eot cs0 xfer_tx4 hw0 = Some (4, xfer_tx4, cs0, h')
         \<and> (\<exists>h1 r. pio_units env_no_eot cs0 xfer_tx4 hw0 = Some ([0, 0, 0, 0], [], h1)
                \<and> kp_spi_wait_for_reg_bit env_no_eot cs0 KP_SPI_REG_STATUS
                     KP_SPI_REG_STATUS_EOT h1 = Some (r, h'))
         \<and> list_ex is_timeout (log h') \<and> \<not> list_ex unit_timeout (log h')
         \<and> units_moved xfer_tx4 (log h') = 4)"
proof -
  let ?hr = "\<lparr>n_readq = 7, n_jiffies = 4,
        log = [Writeq KP_SPI_REG_TXDATA 0, Jiffies 0, Readq KP_SPI_REG_STATUS 7,
               Readq KP_SPI_REG_RXDATA 0xAA,
               Writeq KP_SPI_REG_TXDATA 0, Jiffies 2000, Readq KP_SPI_REG_STATUS 7,
               Readq KP_SPI_REG_RXDATA 0xBB,
               Writeq KP_SPI_REG_TXDATA 0, Jiffies 4000, Readq KP_SPI_REG_STATUS 7,
               Readq KP_SPI_REG_RXDATA 0xCC,
               Jiffies 6000, Readq KP_SPI_REG_STATUS 7]\<rparr>"
  let ?hs = "\<lparr>n_readq = 5, n_jiffies = 5,
        log = [Jiffies 0, Readq KP_SPI_REG_STATUS 6, Writeq KP_SPI_REG_TXDATA 1,
               Jiffies 2000, Readq KP_SPI_REG_STATUS 6, Writeq KP_SPI_REG_TXDATA 2,
               Jiffies 4000, Readq KP_SPI_REG_STATUS 6, Writeq KP_SPI_REG_TXDATA 3,
               Jiffies 6000, Readq KP_SPI_REG_STATUS 4, Jiffies 8000, Readq KP_SPI_REG_STATUS 4,
               WaitTimeout KP_SPI_REG_STATUS KP_SPI_REG_STATUS_TXS]\<rparr>"
  let ?hn = "\<lparr>n_readq = 6, n_jiffies = 6,
        log = [Jiffies 0, Readq KP_SPI_REG_STATUS 3, Writeq KP_SPI_REG_TXDATA 1,
               Jiffies 2000, Readq KP_SPI_REG_STATUS 3, Writeq KP_SPI_REG_TXDATA 2,
               Jiffies 4000, Readq KP_SPI_REG_STATUS 3, Writeq KP_SPI_REG_TXDATA 3,
               Jiffies 6000, Readq KP_SPI_REG_STATUS 3, Writeq KP_SPI_REG_TXDATA 4,
               Jiffies 8000, Readq KP_SPI_REG_STATUS 3, Jiffies 10000, Readq KP_SPI_REG_STATUS 3,
               WaitTimeout KP_SPI_REG_STATUS KP_SPI_REG_STATUS_EOT]\<rparr>"
  have cp: "clock_progress env_rx3"
    by (rule clock_progress_2000) (simp_all add: env_rx3_def)
  have hb: "has_buf xfer_rx3" "has_buf xfer_tx4"
    by (simp_all add: has_buf_def xfer_rx3_def xfer_tx4_def)
  have ln: "len xfer_rx3 = 3" "len xfer_tx4 = 4" "tx_buf xfer_rx3 = None" "tx_buf xfer_tx4 \<noteq> None"
    by (simp_all add: xfer_rx3_def xfer_tx4_def)
  have lr: "log ?hr = log hw0 @ log ?hr" and ls: "log ?hs = log hw0 @ log ?hs"
    and lnn: "log ?hn = log hw0 @ log ?hn" by (simp_all add: hw0_def)
  note tr = txrx_pio_count [of env_rx3 cs_wide xfer_rx3 hw0, THEN conjunct2, THEN conjunct2,
             rule_format, OF conjI [OF wide_run lr]]
  note ts = txrx_pio_count [of env_stall cs0 xfer_tx4 hw0, THEN conjunct2, THEN conjunct2,
             rule_format, OF conjI [OF stall_run ls]]
  note tn = txrx_pio_count [of env_no_eot cs0 xfer_tx4 hw0, THEN conjunct2, THEN conjunct2,
             rule_format, OF conjI [OF no_eot_run lnn]]
  have r0: "kp_spi_txrx_pio env_rx3 cs0 xfer_rx3 hw0
              = Some (3, xfer_rx3\<lparr>rx_buf := Some ((\<lambda>n. 0)(0 := 0xAA, Suc 0 := 0xBB,
                                                       Suc (Suc 0) := 0xCC))\<rparr>, cs0, ?hr)"
    using txrx_pio_count [of env_rx3 cs_wide xfer_rx3 hw0, THEN conjunct2, THEN conjunct1,
            rule_format, of cs0]
    by (simp add: wide_run)
  have u: "unat (3::u32) = 3" "unat (4::u32) = 4" by simp_all
  have rep: "replicate 3 (0::int) = [0, 0, 0]" "replicate 4 (0::int) = [0, 0, 0, 0]"
    by (simp_all add: eval_nat_numeral)
  have ne: "(3::u32) \<noteq> 4" by simp
  have r1: "\<exists>us h1. pio_units env_rx3 cs_wide xfer_rx3 hw0 = Some ([0, 0, 0], us, h1)
                \<and> length us = 3"
    using tr [THEN conjunct2, THEN conjunct1] unfolding ln u rep by auto
  have r2: "\<not> list_ex unit_timeout (log ?hr)" "units_moved xfer_rx3 (log ?hr) = 3"
    using tr [THEN conjunct2, THEN conjunct2] hb unfolding ln u by simp_all
  have s1: "pio_units env_stall cs0 xfer_tx4 hw0 = Some ([0, 0, 0, - ETIMEDOUT], [], ?hs)"
    using ts [THEN conjunct2, THEN conjunct1] hb ln(4) ne unfolding ln(1,2) u rep by auto
  have s2: "list_ex unit_timeout (log ?hs)" "units_moved xfer_tx4 (log ?hs) = 3"
    using ts [THEN conjunct2, THEN conjunct2] hb ne unfolding ln(1,2) u by simp_all
  have n1: "\<exists>h1 r. pio_units env_no_eot cs0 xfer_tx4 hw0 = Some ([0, 0, 0, 0], [], h1)
                \<and> kp_spi_wait_for_reg_bit env_no_eot cs0 KP_SPI_REG_STATUS
                     KP_SPI_REG_STATUS_EOT h1 = Some (r, ?hn)"
    using tn [THEN conjunct2, THEN conjunct1] ln(4) unfolding ln(1,2) u rep by auto
  have n2: "\<not> list_ex unit_timeout (log ?hn)" "units_moved xfer_tx4 (log ?hn) = 4"
    using tn [THEN conjunct2, THEN conjunct2] hb unfolding ln(1,2) u by simp_all
  have n3: "list_ex is_timeout (log ?hn)" by simp
  show ?thesis
    using cp hb wide_run r0 r1 r2 stall_run s1 s2 no_eot_run n1 n2 n3 by blast
qed

lemma rx3_run:
  "kp_spi_txrx_pio env_rx3 cs0 xfer_rx3 hw0 =
     Some (3, xfer_rx3\<lparr>rx_buf := Some ((\<lambda>n. 0)(0 := 0xAA, Suc 0 := 0xBB, Suc (Suc 0) := 0xCC))\<rparr>, cs0,
       \<lparr>n_readq = 7, n_jiffies = 4,
        log = [Writeq KP_SPI_REG_TXDATA 0, Jiffies 0, Readq KP_SPI_REG_STATUS 7,
               Readq KP_SPI_REG_RXDATA 0xAA,
               Writeq KP_SPI_REG_TXDATA 0, Jiffies 2000, Readq KP_SPI_REG_STATUS 7,
               Readq KP_SPI_REG_RXDATA 0xBB,
               Writeq KP_SPI_REG_TXDATA 0, Jiffies 4000, Readq KP_SPI_REG_STATUS 7,
               Readq KP_SPI_REG_RXDATA 0xCC,
               Jiffies 6000, Readq KP_SPI_REG_STATUS 7]\<rparr>)"
  by (simp add: run_defs env_rx3_def cs0_def xfer_rx3_def hw0_def)

text \<open>
  C9. \<^verbatim>\<open>kp_spi_txrx_pio\<close> on a receive-only transfer: it returns when the clock goes
  on, and when no wait of the call timed out, its count is the length \<open>n\<close>, its
  writes and RX-Data reads are, in this order, a write of zero to TX-Data and a
  read of RX-Data, \<open>n\<close> times over, and the receive buffer holds at offsets
  \<open>0..n-1\<close> the bytes read, in the order read, the rest of it unchanged.
\<close>

theorem txrx_pio_receive_only:
  assumes "tx_buf t = None" "rx_buf t = Some rx"
  shows "(clock_progress e \<longrightarrow> kp_spi_txrx_pio e cs t h \<noteq> None) \<and>
         (\<forall>count t' cs' h' evs.
            kp_spi_txrx_pio e cs t h = Some (count, t', cs', h') \<and> log h' = log h @ evs
            \<and> \<not> list_ex is_timeout evs
            \<longrightarrow> count = len t
                \<and> (\<exists>vs. length vs = unat (len t)
                      \<and> sig evs = rx_pairs vs
                      \<and> t' = t\<lparr>rx_buf :=
                              Some (\<lambda>i. if i < unat (len t) then ucast (vs ! i) else rx i)\<rparr>))"
proof (intro conjI allI impI)
  assume "clock_progress e"
  then show "kp_spi_txrx_pio e cs t h \<noteq> None" by (rule txrx_pio_total)
next
  fix count t' cs' h' evs
  assume a: "kp_spi_txrx_pio e cs t h = Some (count, t', cs', h') \<and> log h' = log h @ evs
            \<and> \<not> list_ex is_timeout evs"
  then have run: "kp_spi_txrx_pio e cs t h = Some (count, t', cs', h')"
    and l: "log h' = log h @ evs" and nt: "\<not> list_ex is_timeout evs" by simp_all
  from txrx_pio_trace [OF run] obtain k evs' where
    k: "k \<le> unat (len t)" "count = of_nat k" "log h' = log h @ evs'" "txrx_trace t k evs' t'"
    by blast
  from l k(3) have ee: "evs' = evs" by simp
  from k(4) [unfolded ee txrx_trace_def] assms obtain eot vs where
    eot: "eot = [] \<or> eot = [WaitTimeout KP_SPI_REG_STATUS KP_SPI_REG_STATUS_EOT]" and
    v: "length vs = k"
       "t' = t\<lparr>rx_buf := Some (\<lambda>n. if n < k then ucast (vs ! n) else rx n)\<rparr>"
       "sig evs = rx_pairs vs
                   @ (if k = unat (len t) then eot
                      else [Writeq KP_SPI_REG_TXDATA 0,
                            WaitTimeout KP_SPI_REG_STATUS KP_SPI_REG_STATUS_RXS])"
    by auto
  have nts: "\<not> list_ex is_timeout (sig evs)" using nt list_ex_sig by blast
  have kk: "k = unat (len t)"
  proof (rule ccontr)
    assume "k \<noteq> unat (len t)"
    with v(3) have "list_ex is_timeout (sig evs)" by simp
    with nts show False by simp
  qed
  with v(3) nts eot have s: "sig evs = rx_pairs vs" by auto
  show "count = len t" using k(2) kk by simp
  show "\<exists>vs. length vs = unat (len t) \<and> sig evs = rx_pairs vs
          \<and> t' = t\<lparr>rx_buf := Some (\<lambda>i. if i < unat (len t) then ucast (vs ! i) else rx i)\<rparr>"
    using v(1,2) s kk by (intro exI [of _ vs]) simp
qed

theorem txrx_pio_receive_only_witness:
  "tx_buf xfer_rx3 = None \<and> rx_buf xfer_rx3 = Some (\<lambda>n. 0) \<and> clock_progress env_rx3
   \<and> (\<exists>t' h' rx'. kp_spi_txrx_pio env_rx3 cs0 xfer_rx3 hw0 = Some (3, t', cs0, h')
         \<and> \<not> list_ex is_timeout (log h')
         \<and> (\<exists>vs. length vs = 3 \<and> sig (log h') = rx_pairs vs)
         \<and> sig (log h') = rx_pairs [0xAA, 0xBB, 0xCC]
         \<and> rx_buf t' = Some rx' \<and> map rx' [0, 1, 2] = [0xAA, 0xBB, 0xCC])"
proof -
  let ?t = "xfer_rx3\<lparr>rx_buf := Some ((\<lambda>n. 0)(0 := 0xAA, Suc 0 := 0xBB, Suc (Suc 0) := 0xCC))\<rparr>"
  let ?h = "\<lparr>n_readq = 7, n_jiffies = 4,
        log = [Writeq KP_SPI_REG_TXDATA 0, Jiffies 0, Readq KP_SPI_REG_STATUS 7,
               Readq KP_SPI_REG_RXDATA 0xAA,
               Writeq KP_SPI_REG_TXDATA 0, Jiffies 2000, Readq KP_SPI_REG_STATUS 7,
               Readq KP_SPI_REG_RXDATA 0xBB,
               Writeq KP_SPI_REG_TXDATA 0, Jiffies 4000, Readq KP_SPI_REG_STATUS 7,
               Readq KP_SPI_REG_RXDATA 0xCC,
               Jiffies 6000, Readq KP_SPI_REG_STATUS 7]\<rparr>"
  have b: "tx_buf xfer_rx3 = None" "rx_buf xfer_rx3 = Some (\<lambda>n. 0)"
    by (simp_all add: xfer_rx3_def)
  have cp: "clock_progress env_rx3"
    by (rule clock_progress_2000) (simp_all add: env_rx3_def)
  have l: "log ?h = log hw0 @ log ?h" by (simp add: hw0_def)
  have nt: "\<not> list_ex is_timeout (log ?h)" by simp
  note t = txrx_pio_receive_only [OF b, of env_rx3 cs0 hw0, THEN conjunct2, rule_format,
             OF conjI [OF rx3_run conjI [OF l nt]]]
  have "len xfer_rx3 = 3" by (simp add: xfer_rx3_def)
  with t have 1: "\<exists>vs. length vs = 3 \<and> sig (log ?h) = rx_pairs vs" by auto
  have 2: "sig (log ?h) = rx_pairs [0xAA, 0xBB, 0xCC]" by (simp add: rx_pairs_def)
  have 3: "rx_buf ?t = Some ((\<lambda>n. 0)(0 := 0xAA, Suc 0 := 0xBB, Suc (Suc 0) := 0xCC))" by simp
  have 4: "map ((\<lambda>n. 0)(0 := 0xAA, Suc 0 := 0xBB, Suc (Suc 0) := 0xCC)) [0, 1, 2]
             = [0xAA, 0xBB, 0xCC :: u8]" by simp
  show ?thesis
    apply (intro conjI)
       apply (rule b(1))
      apply (rule b(2))
     apply (rule cp)
    apply (rule exI [of _ ?t], rule exI [of _ ?h],
           rule exI [of _ "(\<lambda>n. 0)(0 := 0xAA, Suc 0 := 0xBB, Suc (Suc 0) := 0xCC)"])
    apply (intro conjI)
         apply (rule rx3_run)
        apply (rule nt)
       apply (rule 1)
      apply (rule 2)
     apply (rule 3)
    apply (rule 4)
    done
qed

lemma get_trm_config:
  "tx_buf t \<noteq> None \<Longrightarrow>
   get_trm (snd (kp_spi_transfer_config spidev t reg)) = KP_SPI_REG_CONFIG_TRM_TX"
  by (simp add: kp_spi_transfer_config_def Let_def field_defs get_set_same get_set_other
        mask_eq_exp_minus_1)

lemma txrx_pio_ignores_rx:
  assumes "tx_buf t = Some tx"
  shows "kp_spi_txrx_pio e cs (t\<lparr>rx_buf := r\<rparr>) h
           = map_option (\<lambda>(count, t1, cs1, h1). (count, t1\<lparr>rx_buf := r\<rparr>, cs1, h1))
               (kp_spi_txrx_pio e cs t h)"
proof -
  have tx: "tx_buf (t\<lparr>rx_buf := r\<rparr>) = Some tx" using assms by simp
  have ln: "len (t\<lparr>rx_buf := r\<rparr>) = len t" by simp
  show ?thesis
  proof (cases "kp_spi_tx_loop e cs tx (unat (len t)) 0 0 h")
    case None
    then show ?thesis
      using txrx_pio_tx_None [OF assms None] txrx_pio_tx_None [OF tx, of e cs h] by (simp add: ln)
  next
    case (Some y)
    obtain fin p cs1 h1 where y: "y = (fin, p, cs1, h1)" by (cases y)
    note lp = Some [unfolded y]
    have lp': "kp_spi_tx_loop e cs tx (unat (len (t\<lparr>rx_buf := r\<rparr>))) 0 0 h = Some (fin, p, cs1, h1)"
      using lp by (simp add: ln)
    show ?thesis
      unfolding txrx_pio_tx [OF assms lp] txrx_pio_tx [OF tx lp']
      by (simp split: option.splits)
  qed
qed

lemma both_run:
  "kp_spi_one_transfer env_ready dev0 cs0 xfer_both 0 hw0 =
     Some (0, xfer_both, 2, cs0\<lparr>conf_cache := 0x6070\<rparr>,
       \<lparr>n_readq = 3, n_jiffies = 3,
        log = [CacheHit 0x4070, Writeq KP_SPI_REG_CONFIG 0x6070,
               Jiffies 0, Readq KP_SPI_REG_STATUS 7, Writeq KP_SPI_REG_TXDATA 1,
               Jiffies 2000, Readq KP_SPI_REG_STATUS 7, Writeq KP_SPI_REG_TXDATA 2,
               Jiffies 4000, Readq KP_SPI_REG_STATUS 7]\<rparr>)"
  by (simp add: run_defs env_ready_def dev0_def cs0_def xfer_both_def hw0_def)

text \<open>
  C10. A transfer with both buffers is executed as a send: the step of the
  sequencer returns when the clock goes on; when the length is not zero, the
  Config value it writes first has the transfer mode TX-only; no read of RX-Data
  is in its log; the transfer comes back as it went in, the receive buffer with
  it; and the step does exactly what it does for the same transfer without the
  receive buffer.
\<close>

theorem both_buffers_send_only:
  assumes "tx_buf t = Some tx" "rx_buf t = Some rx"
  shows "(clock_progress e \<longrightarrow> kp_spi_one_transfer e spidev cs t al h \<noteq> None) \<and>
         (\<forall>st t1 al1 cs1 h1 evs.
            kp_spi_one_transfer e spidev cs t al h = Some (st, t1, al1, cs1, h1)
            \<and> log h1 = log h @ evs
            \<longrightarrow> t1 = t
                \<and> (len t \<noteq> 0 \<longrightarrow>
                      (\<exists>v rest. sig evs = Writeq KP_SPI_REG_CONFIG (ucast v) # rest
                         \<and> get_trm v = KP_SPI_REG_CONFIG_TRM_TX))
                \<and> \<not> list_ex rx_read evs
                \<and> kp_spi_one_transfer e spidev cs (t\<lparr>rx_buf := None\<rparr>) al h
                      = Some (st, t1\<lparr>rx_buf := None\<rparr>, al1, cs1, h1))"
proof (intro conjI allI impI)
  assume "clock_progress e"
  then show "kp_spi_one_transfer e spidev cs t al h \<noteq> None" by (rule one_transfer_total)
next
  fix st t1 al1 cs1 h1 evs
  assume a: "kp_spi_one_transfer e spidev cs t al h = Some (st, t1, al1, cs1, h1)
            \<and> log h1 = log h @ evs"
  then have run: "kp_spi_one_transfer e spidev cs t al h = Some (st, t1, al1, cs1, h1)"
    and l: "log h1 = log h @ evs" by simp_all
  let ?r = "kp_spi_read_reg e cs KP_SPI_REG_CONFIG h"
  let ?c = "kp_spi_transfer_config spidev t (ucast (fst ?r))"
  let ?w = "kp_spi_write_reg (cs\<lparr>word_len := fst ?c\<rparr>) KP_SPI_REG_CONFIG (ucast (snd ?c)) (snd ?r)"
  have main: "t1 = t \<and> \<not> list_ex rx_read evs
        \<and> kp_spi_one_transfer e spidev cs (t\<lparr>rx_buf := None\<rparr>) al h
              = Some (st, t1\<lparr>rx_buf := None\<rparr>, al1, cs1, h1)
        \<and> (len t \<noteq> 0 \<longrightarrow>
              (\<exists>v rest. sig evs = Writeq KP_SPI_REG_CONFIG (ucast v) # rest
                 \<and> get_trm v = KP_SPI_REG_CONFIG_TRM_TX))"
  proof (cases "len t = 0")
    case True
    with run have "st = 0" "t1 = t" "al1 = al" "cs1 = cs" "h1 = h"
      by (simp_all add: kp_spi_one_transfer_def)
    moreover from this l have "evs = []" by simp
    ultimately show ?thesis using True by (simp add: kp_spi_one_transfer_def)
  next
    case False
    with run obtain count where
      x: "kp_spi_txrx_pio e (fst ?w) t (snd ?w) = Some (count, t1, cs1, h1)" and
      st: "st = (if count \<noteq> len t then - EIO else 0)" and al: "al1 = al + count"
      by (auto simp: kp_spi_one_transfer_def Let_def split: option.splits)
    from txrx_pio_trace [OF x] obtain k evs1 where
      k: "log h1 = log (snd ?w) @ evs1" "txrx_trace t k evs1 t1"
      by blast
    from k(2) assms(1) obtain eot where
      eot: "eot = [] \<or> eot = [WaitTimeout KP_SPI_REG_STATUS KP_SPI_REG_STATUS_EOT]" and
      t1: "t1 = t" and
      s1: "sig evs1 = map (\<lambda>n. Writeq KP_SPI_REG_TXDATA (char_to_u64 (tx n))) [0..<k]
                         @ (if k = unat (len t) then eot
                            else [WaitTimeout KP_SPI_REG_STATUS KP_SPI_REG_STATUS_TXS])"
      unfolding txrx_trace_def by auto
    obtain rd where rd: "log (snd ?r) = log h @ [rd]" "polling rd"
      using read_reg_config_polling by blast
    have "log h1 = log h @ (rd # Writeq KP_SPI_REG_CONFIG (ucast (snd ?c)) # evs1)"
      using k(1) rd by simp
    with l have evs: "evs = rd # Writeq KP_SPI_REG_CONFIG (ucast (snd ?c)) # evs1" by simp
    have "sig evs = Writeq KP_SPI_REG_CONFIG (ucast (snd ?c)) # sig evs1"
      using evs rd by simp
    moreover have "get_trm (snd ?c) = KP_SPI_REG_CONFIG_TRM_TX"
      using assms(1) by (simp add: get_trm_config)
    ultimately have cfg: "\<exists>v rest. sig evs = Writeq KP_SPI_REG_CONFIG (ucast v) # rest
                        \<and> get_trm v = KP_SPI_REG_CONFIG_TRM_TX" by blast
    have "filter rx_read (sig evs1) = []" using s1 eot by auto
    then have "filter rx_read evs1 = []" by simp
    moreover have "\<not> rx_read rd" using rd(2) by (cases rd) auto
    ultimately have nrx: "\<not> list_ex rx_read evs"
      using evs by (simp add: list_ex_iff filter_empty_conv)
    have c: "kp_spi_transfer_config spidev (t\<lparr>rx_buf := None\<rparr>) (ucast (fst ?r)) = ?c"
      using assms(1) by (simp add: kp_spi_transfer_config_def)
    have same: "kp_spi_one_transfer e spidev cs (t\<lparr>rx_buf := None\<rparr>) al h
            = Some (st, t1\<lparr>rx_buf := None\<rparr>, al1, cs1, h1)"
      using assms(1) False x st al
      by (simp add: kp_spi_one_transfer_def Let_def c txrx_pio_ignores_rx [OF assms(1)])
    from t1 nrx same cfg show ?thesis by simp
  qed
  from main show "t1 = t" by simp
  from main show "\<not> list_ex rx_read evs" by simp
  from main show "kp_spi_one_transfer e spidev cs (t\<lparr>rx_buf := None\<rparr>) al h
              = Some (st, t1\<lparr>rx_buf := None\<rparr>, al1, cs1, h1)" by simp
  assume "len t \<noteq> 0"
  with main show "\<exists>v rest. sig evs = Writeq KP_SPI_REG_CONFIG (ucast v) # rest
                 \<and> get_trm v = KP_SPI_REG_CONFIG_TRM_TX" by simp
qed

theorem both_buffers_send_only_witness:
  "tx_buf xfer_both = Some (\<lambda>n. of_nat n + 1) \<and> rx_buf xfer_both = Some (\<lambda>n. 0x55)
   \<and> len xfer_both \<noteq> 0
   \<and> (\<exists>cs1 h1. kp_spi_one_transfer env_ready dev0 cs0 xfer_both 0 hw0
                   = Some (0, xfer_both, 2, cs1, h1)
         \<and> \<not> list_ex rx_read (log h1)
         \<and> (\<exists>v rest. sig (log h1) = Writeq KP_SPI_REG_CONFIG (ucast v) # rest
                \<and> get_trm v = KP_SPI_REG_CONFIG_TRM_TX)
         \<and> kp_spi_one_transfer env_ready dev0 cs0 (xfer_both\<lparr>rx_buf := None\<rparr>) 0 hw0
              = Some (0, xfer_both\<lparr>rx_buf := None\<rparr>, 2, cs1, h1))"
proof -
  let ?h = "\<lparr>n_readq = 3, n_jiffies = 3,
        log = [CacheHit 0x4070, Writeq KP_SPI_REG_CONFIG 0x6070,
               Jiffies 0, Readq KP_SPI_REG_STATUS 7, Writeq KP_SPI_REG_TXDATA 1,
               Jiffies 2000, Readq KP_SPI_REG_STATUS 7, Writeq KP_SPI_REG_TXDATA 2,
               Jiffies 4000, Readq KP_SPI_REG_STATUS 7]\<rparr>"
  have b: "tx_buf xfer_both = Some (\<lambda>n. of_nat n + 1)" "rx_buf xfer_both = Some (\<lambda>n. 0x55)"
    by (simp_all add: xfer_both_def)
  have n: "len xfer_both \<noteq> 0" by (simp add: xfer_both_def)
  have l: "log ?h = log hw0 @ log ?h" by (simp add: hw0_def)
  note t = both_buffers_send_only [OF b, of env_ready dev0 cs0 0 hw0, THEN conjunct2, rule_format,
             OF conjI [OF both_run l]]
  from t n have 1: "\<not> list_ex rx_read (log ?h)"
    and 2: "\<exists>v rest. sig (log ?h) = Writeq KP_SPI_REG_CONFIG (ucast v) # rest
                \<and> get_trm v = KP_SPI_REG_CONFIG_TRM_TX"
    and 3: "kp_spi_one_transfer env_ready dev0 cs0 (xfer_both\<lparr>rx_buf := None\<rparr>) 0 hw0
       = Some (0, xfer_both\<lparr>rx_buf := None\<rparr>, 2, cs0\<lparr>conf_cache := 0x6070\<rparr>, ?h)"
    by blast+
  show ?thesis
    apply (intro conjI)
       apply (rule b(1))
      apply (rule b(2))
     apply (rule n)
    apply (rule exI [of _ "cs0\<lparr>conf_cache := 0x6070\<rparr>"], rule exI [of _ ?h])
    apply (intro conjI)
       apply (rule both_run)
      apply (rule 1)
     apply (rule 2)
    apply (rule 3)
    done
qed

end
